theory Spec2Isabelle
  imports Main "HOL-Library.Multiset"
begin

section \<open>Key Codec: \<open>compute_key\<close>\<close>

text \<open>
  Python integers are unbounded, so \<open>key\<close> and \<open>shard_id\<close> are \<open>int\<close>. The two digit
  widths are digit counts and are modelled as \<open>nat\<close>.

  \<^verbatim>\<open>
  def compute_key(key, shard_id, oom_sample_per_shard, oom_shard_count):
      true_key = (10**oom_sample_per_shard) * shard_id + key
      key_format = oom_sample_per_shard + oom_shard_count
      str_key = "{true_key:0{key_format}d}".format(key_format=key_format, true_key=true_key)
      return str_key
  \<close>

  The format specification \<open>0Nd\<close> is Python's sign-aware zero padding to a \<^emph>\<open>minimum\<close>
  field width \<open>N\<close>: a rendering longer than \<open>N\<close> is kept whole, and a minus sign counts
  towards the width.
\<close>

definition digit_char :: "nat \<Rightarrow> char" where
  "digit_char d = char_of (48 + d)"

fun digits10 :: "nat \<Rightarrow> string" where
  "digits10 n = (if n < 10 then [digit_char n] else digits10 (n div 10) @ [digit_char (n mod 10)])"

definition zfill :: "nat \<Rightarrow> string \<Rightarrow> string" where
  "zfill width s = replicate (width - length s) (CHR ''0'') @ s"

definition format_0d :: "nat \<Rightarrow> int \<Rightarrow> string" where
  "format_0d width n =
     (if n < 0 then CHR ''-'' # zfill (width - 1) (digits10 (nat (- n)))
      else zfill width (digits10 (nat n)))"

definition compute_key :: "int \<Rightarrow> int \<Rightarrow> nat \<Rightarrow> nat \<Rightarrow> string" where
  "compute_key key shard_id oom_sample_per_shard oom_shard_count =
     (let true_key = (10 ^ oom_sample_per_shard) * shard_id + key;
          key_format = oom_sample_per_shard + oom_shard_count
      in format_0d key_format true_key)"

text \<open>
  Reading a string of decimal digits back as a number; this is the specification side of
  "the decimal rendering of", used only to state what \<open>compute_key\<close> returns.
\<close>

definition digit_val :: "char \<Rightarrow> nat" where
  "digit_val c = of_char c - 48"

definition is_digit :: "char \<Rightarrow> bool" where
  "is_digit c = (48 \<le> (of_char c :: nat) \<and> (of_char c :: nat) \<le> 57)"

definition dec_value :: "string \<Rightarrow> nat" where
  "dec_value s = foldl (\<lambda>a c. 10 * a + digit_val c) 0 s"

section \<open>Strings, as far as the Policy Filter needs them\<close>

text \<open>
  A string is a list of characters, and a character stands for the Unicode code point
  of its number, 0 to 255; text with a code point above 255 is outside the model.
  \<open>is_space\<close> holds of exactly the code points below 256 that Python's \<open>str.strip()\<close>
  removes (those for which \<open>str.isspace\<close> holds): 9 to 13, 28 to 32, 133 (next line)
  and 160 (no-break space). \<open>lower_char\<close> is Python's \<open>str.lower()\<close> on these code
  points: 65 to 90 (\<open>A\<close> to \<open>Z\<close>), 192 to 214 and 216 to 222 (the capital letters of
  Latin-1) go to the code point 32 above, every other code point stays.
\<close>

definition is_space :: "char \<Rightarrow> bool" where
  "is_space c =
     (let n = (of_char c :: nat)
      in (9 \<le> n \<and> n \<le> 13) \<or> (28 \<le> n \<and> n \<le> 32) \<or> n = 133 \<or> n = 160)"

definition strip :: "string \<Rightarrow> string" where
  "strip s = rev (dropWhile is_space (rev (dropWhile is_space s)))"

definition lower_char :: "char \<Rightarrow> char" where
  "lower_char c =
     (let n = (of_char c :: nat)
      in if (65 \<le> n \<and> n \<le> 90) \<or> (192 \<le> n \<and> n \<le> 214) \<or> (216 \<le> n \<and> n \<le> 222)
         then char_of (n + 32) else c)"

definition lower :: "string \<Rightarrow> string" where
  "lower s = map lower_char s"

text \<open>\<open>s.split(sep)\<close> for a one-character separator: always at least one field.\<close>

fun split_all :: "char \<Rightarrow> string \<Rightarrow> string list" where
  "split_all sep [] = [[]]"
| "split_all sep (c # cs) =
     (if c = sep then [] # split_all sep cs
      else (case split_all sep cs of
              [] \<Rightarrow> [[c]]
            | w # ws \<Rightarrow> (c # w) # ws))"

text \<open>\<open>s.split(sep, 1)\<close>: one field when \<open>sep\<close> does not occur, otherwise the text before
  the first \<open>sep\<close> and the text after it.\<close>

definition split1 :: "char \<Rightarrow> string \<Rightarrow> string list" where
  "split1 sep s =
     (if sep \<in> set s
      then [takeWhile (\<lambda>c. c \<noteq> sep) s, tl (dropWhile (\<lambda>c. c \<noteq> sep) s)]
      else [s])"

section \<open>Policy Filter: \<open>is_disallowed\<close>\<close>

text \<open>
  An exception is an instance of Python's \<open>Exception\<close>; the string is what \<open>str(err)\<close>
  gives. A computation that may raise returns \<open>exn + 'a\<close>, with \<open>Inl\<close> for the raise.
\<close>

datatype exn = Exn string

text \<open>
  The response headers are a case-insensitive multi-dictionary: a list of name and
  value pairs, from which \<open>getall\<close> takes the values of one name in order (and the empty
  default list when the name is absent).
\<close>

type_synonym headers = "(string \<times> string) list"

definition getall :: "headers \<Rightarrow> string \<Rightarrow> string list" where
  "getall hs name = map snd (filter (\<lambda>kv. lower (fst kv) = lower name) hs)"

text \<open>
  \<^verbatim>\<open>any(x in disallowed_header_directives for x in directives)\<close>. The directive
  collection is a set of strings, or \<open>None\<close>; membership in \<open>None\<close> raises \<open>TypeError\<close>.
\<close>

fun any_in :: "string list \<Rightarrow> string set option \<Rightarrow> exn + bool" where
  "any_in [] D = Inr False"
| "any_in (x # xs) None = Inl (Exn ''argument of type NoneType is not iterable'')"
| "any_in (x # xs) (Some S) = (if x \<in> S then Inr True else any_in xs (Some S))"

text \<open>
  The body of the \<open>try\<close> block for one header value: \<open>Inr True\<close> is the \<open>return True\<close>,
  \<open>Inr False\<close> falls through to the next value, \<open>Inl\<close> is an exception for the handler.
  \<^verbatim>\<open>
  uatoken_directives = values.split(":", 1)
  directives = [x.strip().lower() for x in uatoken_directives[-1].split(",")]
  ua_token = uatoken_directives[0].lower() if len(uatoken_directives) == 2 else None
  if (ua_token is None or ua_token == user_agent_token) and any(
      x in disallowed_header_directives for x in directives
  ):
      return True
  \<close>
\<close>

definition check_value :: "string option \<Rightarrow> string set option \<Rightarrow> string \<Rightarrow> exn + bool" where
  "check_value user_agent_token disallowed_header_directives values =
     (let uatoken_directives = split1 (CHR '':'') values;
          directives = map (\<lambda>x. lower (strip x)) (split_all (CHR '','') (last uatoken_directives));
          ua_token = (if length uatoken_directives = 2
                      then Some (lower (hd uatoken_directives)) else None)
      in if ua_token = None \<or> ua_token = user_agent_token
         then any_in directives disallowed_header_directives
         else Inr False)"

text \<open>
  The loop over the header values. The second component of the result is what the
  exception handler printed: the values that failed to parse, in order.
\<close>

fun scan_values :: "string list \<Rightarrow> string option \<Rightarrow> string set option \<Rightarrow> string list
    \<Rightarrow> bool \<times> string list" where
  "scan_values [] tok D printed = (False, printed)"
| "scan_values (values # rest) tok D printed =
     (case check_value tok D values of
        Inr True \<Rightarrow> (True, printed)
      | Inr False \<Rightarrow> scan_values rest tok D printed
      | Inl err \<Rightarrow> scan_values rest tok D (printed @ [values]))"

definition is_disallowed :: "headers \<Rightarrow> string option \<Rightarrow> string set option \<Rightarrow> bool \<times> string list" where
  "is_disallowed hs user_agent_token disallowed_header_directives =
     scan_values (getall hs ''X-Robots-Tag'') user_agent_token disallowed_header_directives []"



text \<open>
  The specification side of the Policy Filter, in the words of the specification: a
  header value is split on the first colon into an optional token and a comma-separated
  directive list; each directive is trimmed and lower-cased; the value matches when the
  token is absent or equals the configured token without regard to case, and some
  directive is in the disallowed set. \<open>spec_value_matches True\<close> also trims the token
  (as the specification says); \<open>spec_value_matches False\<close> only lower-cases it.
\<close>

definition spec_token :: "string \<Rightarrow> string option" where
  "spec_token v = (if CHR '':'' \<in> set v then Some (takeWhile (\<lambda>c. c \<noteq> CHR '':'') v) else None)"

definition spec_directive_text :: "string \<Rightarrow> string" where
  "spec_directive_text v =
     (if CHR '':'' \<in> set v then tl (dropWhile (\<lambda>c. c \<noteq> CHR '':'') v) else v)"



section \<open>Fetcher: \<open>download_image\<close> and \<open>download_image_with_retry\<close>\<close>

text \<open>
  What the HTTP session does for one \<open>session.get(url)\<close>: entering the request raises
  (transport error, timeout, protocol error), or it yields a response with its headers,
  what \<open>await resp.read()\<close> does (raise, or the body), and what leaving the
  \<open>async with\<close> block raises, if anything.
\<close>

type_synonym bytes = string

record response =
  resp_headers :: headers
  resp_read :: "exn + bytes"
  resp_exit :: "exn option"

type_synonym get_behaviour = "exn + response"

text \<open>A fetch outcome is the triple \<open>(key, img_stream, err)\<close>.\<close>

type_synonym outcome = "int \<times> bytes option \<times> string option"

definition policy_rejection :: string where
  "policy_rejection = ''Use of image disallowed by X-Robots-Tag directive''"

text \<open>Python truth value of the configured directive set: \<open>None\<close> and the empty set are false.\<close>

definition truthy :: "string set option \<Rightarrow> bool" where
  "truthy D = (case D of None \<Rightarrow> False | Some S \<Rightarrow> S \<noteq> {})"

text \<open>
  Leaving the \<open>async with\<close> block runs the response's exit handler on every path out of
  the block (fall through, \<open>return\<close>, exception); what the handler raises replaces the
  block's own result.
\<close>

definition async_with :: "response \<Rightarrow> (exn + 'a) \<Rightarrow> exn + 'a" where
  "async_with resp body = (case resp_exit resp of Some e \<Rightarrow> Inl e | None \<Rightarrow> body)"

text \<open>
  \<^verbatim>\<open>
  key, url = row
  img_stream = None
  try:
      async with session.get(url) as resp:
          headers = resp.headers
          if disallowed_header_directives and is_disallowed(headers, user_agent_token,
                                                           disallowed_header_directives):
              return key, None, "Use of image disallowed by X-Robots-Tag directive"
          img_stream = io.BytesIO(await resp.read())
      return key, img_stream, None
  except Exception as err:
      if img_stream is not None:
          img_stream.close()
      return key, None, str(err)
  \<close>
  \<open>download_image_try\<close> is the \<open>try\<close> block, \<open>download_image\<close> adds the handler. The
  result type keeps the possibility of a raise, so that "does not raise" is a theorem.
\<close>

definition download_image_try ::
  "int \<Rightarrow> get_behaviour \<Rightarrow> string option \<Rightarrow> string set option \<Rightarrow> exn + outcome" where
  "download_image_try key got user_agent_token disallowed_header_directives =
     (case got of
        Inl e \<Rightarrow> Inl e
      | Inr resp \<Rightarrow>
          async_with resp
            (if truthy disallowed_header_directives
                \<and> fst (is_disallowed (resp_headers resp) user_agent_token disallowed_header_directives)
             then Inr (key, None, Some policy_rejection)
             else (case resp_read resp of
                     Inl e \<Rightarrow> Inl e
                   | Inr body \<Rightarrow> Inr (key, Some body, None))))"

definition download_image ::
  "int \<times> 'u \<Rightarrow> ('u \<Rightarrow> get_behaviour) \<Rightarrow> string option \<Rightarrow> string set option
    \<Rightarrow> exn + outcome" where
  "download_image row session user_agent_token disallowed_header_directives =
     (case row of (key, url) \<Rightarrow>
        (case download_image_try key (session url) user_agent_token disallowed_header_directives of
           Inr out \<Rightarrow> Inr out
         | Inl (Exn msg) \<Rightarrow> Inr (key, None, Some msg)))"

text \<open>
  \<^verbatim>\<open>
  async with semaphore:
      for _ in range(retries + 1):
          key, img_stream, err = await download_image(row, session, ...)
          if img_stream is not None:
              break
      await queue.put((key, img_stream, err))
  \<close>
  The session may answer each attempt differently, so it is indexed by the attempt
  number. \<open>retry_loop n i\<close> runs at most \<open>n\<close> more attempts, the next one being attempt
  \<open>i\<close>; it returns the number of calls of \<open>download_image\<close> made so far and the triple
  the loop variables hold (\<open>None\<close> while they are unbound). \<open>retries\<close> is a Python
  integer: for \<open>retries + 1 \<le> 0\<close> the range is empty, the variables stay unbound and
  \<open>queue.put\<close> raises \<open>UnboundLocalError\<close>. The semaphore only delays the block and is
  part of the coordinator below. The URL is whatever the row holds, so its type is left
  open.

  The handoff queue is an \<open>asyncio.Queue\<close>: the items put and not yet taken, oldest
  first, and the counter \<open>unfinished_tasks\<close> that \<open>put\<close> increments, \<open>task_done\<close>
  decrements and \<open>join\<close> waits on. An item is a fetch outcome or the sentinel
  \<open>("finish", "finish", "finish")\<close>; the key of an outcome is an integer, so no outcome
  equals the sentinel.
\<close>

datatype item = Outcome outcome | Finish

record data_queue =
  items :: "item list"
  unfinished_tasks :: nat

definition queue_put :: "item \<Rightarrow> data_queue \<Rightarrow> data_queue" where
  "queue_put x q = q\<lparr>items := items q @ [x], unfinished_tasks := unfinished_tasks q + 1\<rparr>"

text \<open>\<open>task_done\<close> raises \<open>ValueError\<close> when called more often than items were put.\<close>

definition task_done :: "data_queue \<Rightarrow> exn + data_queue" where
  "task_done q =
     (if unfinished_tasks q = 0 then Inl (Exn ''task_done() called too many times'')
      else Inr (q\<lparr>unfinished_tasks := unfinished_tasks q - 1\<rparr>))"

fun retry_loop :: "nat \<Rightarrow> nat \<Rightarrow> int \<times> 'u \<Rightarrow> (nat \<Rightarrow> 'u \<Rightarrow> get_behaviour)
    \<Rightarrow> string option \<Rightarrow> string set option \<Rightarrow> outcome option \<Rightarrow> exn + (nat \<times> outcome option)" where
  "retry_loop 0 i row session tok D cur = Inr (i, cur)"
| "retry_loop (Suc n) i row session tok D cur =
     (case download_image row (session i) tok D of
        Inl e \<Rightarrow> Inl e
      | Inr (key, img_stream, err) \<Rightarrow>
          if img_stream \<noteq> None then Inr (Suc i, Some (key, img_stream, err))
          else retry_loop n (Suc i) row session tok D (Some (key, img_stream, err)))"

definition download_image_with_retry ::
  "int \<times> 'u \<Rightarrow> (nat \<Rightarrow> 'u \<Rightarrow> get_behaviour) \<Rightarrow> data_queue \<Rightarrow> int
    \<Rightarrow> string option \<Rightarrow> string set option \<Rightarrow> exn + (nat \<times> data_queue)" where
  "download_image_with_retry row session queue retries user_agent_token disallowed_header_directives =
     (case retry_loop (nat (retries + 1)) 0 row session user_agent_token disallowed_header_directives None of
        Inl e \<Rightarrow> Inl e
      | Inr (calls, None) \<Rightarrow> Inl (Exn ''UnboundLocalError'')
      | Inr (calls, Some out) \<Rightarrow> Inr (calls, queue_put (Outcome out) queue))"

section \<open>Shard Runner and Pipeline Coordinator: \<open>AsyncDownloader.download_shard\<close>\<close>

subsection \<open>Values, configuration and the outside world\<close>

text \<open>
  A cell of the shard's table, and a value of a metadata record, is a Python value:
  \<open>None\<close>, a string, an integer or a list (a bounding-box list).
\<close>

datatype pyval = PNone | PStr string | PInt int | PList "pyval list"

text \<open>
  A call either does not return (the event loop waits for ever), raises, or returns.
\<close>

datatype 'a result = Hang | Raise exn | Return 'a

text \<open>The attributes of \<open>self\<close> that \<open>download_shard\<close> reads.\<close>

record config =
  self_column_list :: "string list"
  self_extract_exif :: bool
  self_compute_hash :: "string option"
  self_oom_shard_count :: nat
  self_number_sample_per_shard :: int
  self_retries :: int
  self_thread_count :: int
  self_user_agent_token :: "string option"
  self_disallowed_header_directives :: "string set option"
  self_blurring_bbox_col :: "string option"

text \<open>
  A metadata record is a Python dictionary with string keys: an association list in
  insertion order, in which storing under an existing key replaces the value in place.
\<close>

type_synonym meta = "(string \<times> pyval) list"

primrec dict_set :: "string \<Rightarrow> pyval \<Rightarrow> meta \<Rightarrow> meta" where
  "dict_set k v [] = [(k, v)]"
| "dict_set k v (p # ps) = (if fst p = k then (k, v) # ps else p # dict_set k v ps)"

text \<open>The arguments of one \<open>sample_writer.write(img, str_key, caption, meta)\<close>.\<close>

record write_call =
  w_img :: "bytes option"
  w_key :: string
  w_caption :: pyval
  w_meta :: meta

text \<open>What \<open>write_stats\<close> receives from the shard (times and constants left out).\<close>

record stats =
  st_count :: nat
  st_successes :: nat
  st_failed_to_download :: nat
  st_failed_to_resize :: nat
  st_status_dict :: "string list"

text \<open>
  The resizer returns \<open>(img, width, height, original_width, original_height,
  error_message)\<close>.
\<close>

type_synonym resized = "bytes option \<times> pyval \<times> pyval \<times> pyval \<times> pyval \<times> string option"

text \<open>
  The collaborators of the shard run, each as what it does when called: the shard
  source (the table read from a path, or a raise for an unreadable source), the writer
  (construction, \<open>write\<close>, \<open>close\<close>), the HTTP session (per row key and attempt), the
  resizer, EXIF extraction, the named hash, \<open>write_stats\<close> and \<open>fs.rm\<close>.
  \<open>math_ceil_log10 n\<close> is the value of \<open>math.ceil(math.log10(n))\<close> for an integer
  \<open>n \<ge> 1\<close>; it is computed in floating point (and is 15, not 16, for \<open>10 ^ 15 + 1\<close>),
  so it is taken as given rather than computed here.
\<close>

record env =
  src_read :: "string \<Rightarrow> exn + (string \<times> pyval list) list"
  writer_init :: "exn option"
  net :: "int \<Rightarrow> nat \<Rightarrow> pyval \<Rightarrow> get_behaviour"
  resizer :: "bytes \<Rightarrow> pyval \<Rightarrow> exn + resized"
  writer_write :: "write_call \<Rightarrow> exn option"
  exif_of :: "bytes \<Rightarrow> exn + string"
  hash_of :: "string \<Rightarrow> bytes \<Rightarrow> exn + string"
  writer_close :: "exn option"
  write_stats :: "stats \<Rightarrow> exn option"
  fs_rm :: "string \<Rightarrow> exn option"
  math_ceil_log10 :: "int \<Rightarrow> nat"

subsection \<open>Loading the shard\<close>

text \<open>\<open>xs[i]\<close> for a Python integer \<open>i\<close>: negative indices count from the end.\<close>

definition py_get :: "'a list \<Rightarrow> int \<Rightarrow> exn + 'a" where
  "py_get xs i =
     (let j = (if i < 0 then int (length xs) + i else i)
      in if 0 \<le> j \<and> j < int (length xs) then Inr (xs ! nat j)
         else Inl (Exn ''list index out of range''))"

text \<open>\<open>xs.index(x)\<close>: the first position of \<open>x\<close>, or \<open>ValueError\<close>.\<close>

definition index_of :: "'a \<Rightarrow> 'a list \<Rightarrow> exn + nat" where
  "index_of x xs =
     (if x \<in> set xs then Inr (length (takeWhile (\<lambda>y. y \<noteq> x) xs))
      else Inl (Exn ''ValueError: not in list''))"

text \<open>\<open>df.select(self.column_list).to_pydict()\<close>, read column by column: a column that
  the table does not have raises \<open>KeyError\<close>.\<close>

fun select_columns :: "(string \<times> pyval list) list \<Rightarrow> string list \<Rightarrow> exn + pyval list list" where
  "select_columns table [] = Inr []"
| "select_columns table (c # cs) =
     (case map_of table c of
        None \<Rightarrow> Inl (Exn ''KeyError'')
      | Some col \<Rightarrow>
          (case select_columns table cs of
             Inl e \<Rightarrow> Inl e
           | Inr cols \<Rightarrow> Inr (col # cols)))"

text \<open>\<open>zip(*cols)\<close>: one tuple per row, as many rows as the shortest column has.\<close>

definition zip_star :: "'a list list \<Rightarrow> 'a list list" where
  "zip_star cols =
     (if cols = [] then []
      else map (\<lambda>i. map (\<lambda>col. col ! i) cols) [0 ..< Min (set (map length cols))])"

definition enumerate_rows :: "'a list \<Rightarrow> (int \<times> 'a) list" where
  "enumerate_rows xs = zip (map int [0 ..< length xs]) xs"

text \<open>The local variables of \<open>download_shard\<close> that the two tasks read.\<close>

record locals =
  l_shard_id :: int
  shard_to_dl :: "(int \<times> pyval list) list"
  url_indice :: nat
  caption_indice :: "nat option"
  bbox_indice :: "nat option"
  key_url_list :: "(int \<times> pyval) list"
  l_oom_sample_per_shard :: nat

text \<open>
  Lines 149 to 182: read the table, select the columns, enumerate the rows, find the
  column positions, build the work list. (The output schema is only handed to the
  writer's constructor and is not modelled.)
\<close>

definition load_shard :: "config \<Rightarrow> env \<Rightarrow> int \<times> string \<Rightarrow> exn + locals" where
  "load_shard self env row =
     (case row of (shard_id, shard_file) \<Rightarrow>
      (case src_read env shard_file of
         Inl e \<Rightarrow> Inl e
       | Inr df \<Rightarrow>
      (case select_columns df (self_column_list self) of
         Inl e \<Rightarrow> Inl e
       | Inr pydict \<Rightarrow>
      (let rows = enumerate_rows (zip_star pydict) in
      (case index_of ''url'' (self_column_list self) of
         Inl e \<Rightarrow> Inl e
       | Inr url_i \<Rightarrow>
      (case (if ''caption'' \<in> set (self_column_list self)
             then map_sum id Some (index_of ''caption'' (self_column_list self))
             else Inr None) of
         Inl e \<Rightarrow> Inl e
       | Inr caption_i \<Rightarrow>
      (case (case self_blurring_bbox_col self of
               None \<Rightarrow> Inr None
             | Some col \<Rightarrow> map_sum id Some (index_of col (self_column_list self))) of
         Inl e \<Rightarrow> Inl e
       | Inr bbox_i \<Rightarrow>
           Inr \<lparr>l_shard_id = shard_id, shard_to_dl = rows, url_indice = url_i,
                caption_indice = caption_i, bbox_indice = bbox_i,
                key_url_list = map (\<lambda>kx. (fst kx, snd kx ! url_i)) rows,
                l_oom_sample_per_shard = 0\<rparr>)))))))"

subsection \<open>The Outcome Processor: one iteration of the consumer loop\<close>

text \<open>
  What the consumer task changes: the three tallies, the Status Counter (as the list
  of labels passed to \<open>status_dict.increment\<close>), the calls of \<open>sample_writer.write\<close>
  in order, and the lines the exception handler prints (key and error text).
\<close>

record sink =
  successes :: nat
  failed_to_download :: nat
  failed_to_resize :: nat
  status_dict :: "string list"
  writes :: "write_call list"
  stdout :: "(int \<times> string) list"

definition opt_str :: "string option \<Rightarrow> pyval" where
  "opt_str s = (case s of None \<Rightarrow> PNone | Some t \<Rightarrow> PStr t)"

text \<open>
  \<^verbatim>\<open>
  meta = {
      **{self.column_list[i]: sample_data[i] for i in range(len(self.column_list))},
      "key": str_key, "status": None, "error_message": error_message,
      "width": None, "height": None, "original_width": None, "original_height": None,
  }
  if self.extract_exif:
      meta["exif"] = None
  if self.compute_hash is not None:
      meta[self.compute_hash] = None
  \<close>
\<close>

definition build_meta :: "config \<Rightarrow> pyval list \<Rightarrow> string \<Rightarrow> string option \<Rightarrow> exn + meta" where
  "build_meta self sample_data str_key error_message =
     (if length sample_data < length (self_column_list self)
      then Inl (Exn ''tuple index out of range'')
      else
        (let m0 = fold (\<lambda>cv m. dict_set (fst cv) (snd cv) m) (zip (self_column_list self) sample_data) [];
             m1 = dict_set ''original_height'' PNone
                   (dict_set ''original_width'' PNone
                   (dict_set ''height'' PNone
                   (dict_set ''width'' PNone
                   (dict_set ''error_message'' (opt_str error_message)
                   (dict_set ''status'' PNone
                   (dict_set ''key'' (PStr str_key) m0))))));
             m2 = (if self_extract_exif self then dict_set ''exif'' PNone m1 else m1);
             m3 = (case self_compute_hash self of None \<Rightarrow> m2 | Some h \<Rightarrow> dict_set h PNone m2)
         in Inr m3))"

text \<open>
  A call of \<open>sample_writer.write\<close>: the call is recorded, whether or not it raises.
\<close>

definition do_write :: "env \<Rightarrow> write_call \<Rightarrow> sink \<Rightarrow> exn option \<times> sink" where
  "do_write env c k = (writer_write env c, k\<lparr>writes := writes k @ [c]\<rparr>)"

text \<open>\<open>sample_data[caption_indice] if caption_indice is not None else None\<close>\<close>

definition opt_cell :: "pyval list \<Rightarrow> nat option \<Rightarrow> exn + pyval" where
  "opt_cell sample_data i =
     (case i of None \<Rightarrow> Inr PNone | Some j \<Rightarrow> py_get sample_data (int j))"

text \<open>
  The body of the \<open>try\<close> block of \<open>save_task\<close> (lines 221 to 309) for one dequeued
  outcome. The result is the exception that escapes the block, if any, and the sink
  as the block leaves it: what was changed before a raise stays changed.
\<close>

definition try_item :: "config \<Rightarrow> env \<Rightarrow> locals \<Rightarrow> outcome \<Rightarrow> sink \<Rightarrow> exn option \<times> sink" where
  "try_item self env lcl outc k =
     (case outc of (key, img_stream, error_message) \<Rightarrow>
      (case py_get (shard_to_dl lcl) key of
         Inl e \<Rightarrow> (Some e, k)
       | Inr (_, sample_data) \<Rightarrow>
      (let str_key = compute_key key (l_shard_id lcl) (l_oom_sample_per_shard lcl)
                       (self_oom_shard_count self) in
      (case build_meta self sample_data str_key error_message of
         Inl e \<Rightarrow> (Some e, k)
       | Inr meta0 \<Rightarrow>
      (case error_message of
         Some msg \<Rightarrow>
           (let k1 = k\<lparr>failed_to_download := failed_to_download k + 1,
                       status_dict := status_dict k @ [msg]\<rparr>;
                meta1 = dict_set ''status'' (PStr ''failed_to_download'') meta0
            in (case opt_cell sample_data (caption_indice lcl) of
                  Inl e \<Rightarrow> (Some e, k1)
                | Inr caption \<Rightarrow>
                    do_write env \<lparr>w_img = None, w_key = str_key, w_caption = caption,
                                  w_meta = meta1\<rparr> k1))
       | None \<Rightarrow>
      (case img_stream of
         None \<Rightarrow> (Some (Exn ''NoneType object has no attribute seek''), k)
       | Some stream \<Rightarrow>
      (case opt_cell sample_data (bbox_indice lcl) of
         Inl e \<Rightarrow> (Some e, k)
       | Inr bbox_list \<Rightarrow>
      (case resizer env stream bbox_list of
         Inl e \<Rightarrow> (Some e, k)
       | Inr (img, width, height, original_width, original_height, error_message2) \<Rightarrow>
      (case error_message2 of
         Some msg \<Rightarrow>
           (let k1 = k\<lparr>failed_to_resize := failed_to_resize k + 1,
                       status_dict := status_dict k @ [msg]\<rparr>;
                meta1 = dict_set ''error_message'' (PStr msg)
                          (dict_set ''status'' (PStr ''failed_to_resize'') meta0)
            in (case opt_cell sample_data (caption_indice lcl) of
                  Inl e \<Rightarrow> (Some e, k1)
                | Inr caption \<Rightarrow>
                    do_write env \<lparr>w_img = None, w_key = str_key, w_caption = caption,
                                  w_meta = meta1\<rparr> k1))
       | None \<Rightarrow>
           (let k1 = k\<lparr>successes := successes k + 1,
                       status_dict := status_dict k @ [''success'']\<rparr>;
                meta1 = (if self_extract_exif self
                         then dict_set ''exif''
                                (case exif_of env stream of Inl e \<Rightarrow> PNone | Inr j \<Rightarrow> PStr j) meta0
                         else meta0)
            in (case (case self_compute_hash self of
                        None \<Rightarrow> Inr meta1
                      | Some h \<Rightarrow>
                          (case hash_of env h stream of
                             Inl e \<Rightarrow> Inl e
                           | Inr digest \<Rightarrow> Inr (dict_set h (PStr digest) meta1))) of
                  Inl e \<Rightarrow> (Some e, k1)
                | Inr meta2 \<Rightarrow>
                   (let meta3 = dict_set ''original_height'' original_height
                                 (dict_set ''original_width'' original_width
                                 (dict_set ''height'' height
                                 (dict_set ''width'' width
                                 (dict_set ''status'' (PStr ''success'') meta2))))
                    in (case opt_cell sample_data (caption_indice lcl) of
                          Inl e \<Rightarrow> (Some e, k1)
                        | Inr caption \<Rightarrow>
                            do_write env \<lparr>w_img = img, w_key = str_key, w_caption = caption,
                                          w_meta = meta3\<rparr> k1)))))))))))))"

text \<open>
  The handler of the \<open>try\<close> block: \<open>print(f"Sample {key} failed to download: {err}")\<close>.
\<close>

definition handle_item :: "config \<Rightarrow> env \<Rightarrow> locals \<Rightarrow> outcome \<Rightarrow> sink \<Rightarrow> sink" where
  "handle_item self env lcl outc k =
     (case try_item self env lcl outc k of
        (None, k') \<Rightarrow> k'
      | (Some (Exn msg), k') \<Rightarrow> k'\<lparr>stdout := stdout k' @ [(fst outc, msg)]\<rparr>)"

subsection \<open>The Pipeline Coordinator: the two tasks under the event loop\<close>

text \<open>
  \<open>download_task\<close> is gathering the fetch tasks, or has put the sentinel and waits in
  \<open>data_queue.join()\<close>, or has returned from \<open>join\<close>, or has ended with the exception of
  a fetch task. \<open>save_task\<close> is running its loop, or has left it at the sentinel, or has
  ended with an exception.
\<close>

datatype producer_pc = Gathering | Joining | JoinReturned | ProducerFailed exn

datatype consumer_pc = Running | Done | Failed exn

text \<open>
  The fetch tasks not yet admitted by the semaphore, those admitted and not yet
  complete, the free slots of the semaphore, the queue, the two tasks and the sink.
\<close>

record coord =
  waiting :: "(int \<times> pyval) list"
  inflight :: "(int \<times> pyval) list"
  semaphore :: nat
  data_q :: data_queue
  producer :: producer_pc
  consumer :: consumer_pc
  sink :: sink

text \<open>
  The event loop runs one task at a time up to its next suspension. The steps that
  touch shared state are: a fetch task is admitted by the semaphore; an admitted fetch
  task finishes its attempts, puts its outcome and frees its slot (nothing else happens
  between these, since \<open>put\<close> on an unbounded queue does not suspend); \<open>gather\<close>
  returns and \<open>download_task\<close> puts the sentinel and starts to wait in \<open>join\<close>; \<open>join\<close>
  returns; \<open>save_task\<close> takes one item and handles it up to its next \<open>get\<close>. Which step
  comes next is the scheduler's and the network's choice: a schedule is a list of such
  choices, and a choice that is not possible in the current state changes nothing.
\<close>

datatype event = Acquire int | Complete int | Gathered | JoinReturns | Consume

definition acquire :: "int \<Rightarrow> coord \<Rightarrow> coord" where
  "acquire key c =
     (case find (\<lambda>r. fst r = key) (waiting c) of
        None \<Rightarrow> c
      | Some r \<Rightarrow>
          if semaphore c = 0 then c
          else c\<lparr>waiting := remove1 r (waiting c), inflight := inflight c @ [r],
                 semaphore := semaphore c - 1\<rparr>)"

definition complete :: "config \<Rightarrow> env \<Rightarrow> int \<Rightarrow> coord \<Rightarrow> coord" where
  "complete self env key c =
     (case find (\<lambda>r. fst r = key) (inflight c) of
        None \<Rightarrow> c
      | Some r \<Rightarrow>
          (let c' = c\<lparr>inflight := remove1 r (inflight c), semaphore := semaphore c + 1\<rparr>
           in (case download_image_with_retry r (net env key) (data_q c) (self_retries self)
                      (self_user_agent_token self) (self_disallowed_header_directives self) of
                 Inl e \<Rightarrow>
                   c'\<lparr>producer := (if producer c = Gathering then ProducerFailed e
                                    else producer c)\<rparr>
               | Inr (calls, q') \<Rightarrow> c'\<lparr>data_q := q'\<rparr>)))"

definition gathered :: "coord \<Rightarrow> coord" where
  "gathered c =
     (if producer c = Gathering \<and> waiting c = [] \<and> inflight c = []
      then c\<lparr>data_q := queue_put Finish (data_q c), producer := Joining\<rparr>
      else c)"

definition join_returns :: "coord \<Rightarrow> coord" where
  "join_returns c =
     (if producer c = Joining \<and> unfinished_tasks (data_q c) = 0
      then c\<lparr>producer := JoinReturned\<rparr>
      else c)"

text \<open>
  \<^verbatim>\<open>
  while True:
      key, img_stream, error_message = await data_queue.get()
      if key == img_stream == error_message == "finish":
          break
      try: ...
      except Exception as err: ...
      finally:
          data_queue.task_done()
  \<close>
  The \<open>break\<close> at the sentinel is before the \<open>try\<close>, so \<open>task_done\<close> is not called
  for the sentinel.
\<close>

definition consume :: "config \<Rightarrow> env \<Rightarrow> locals \<Rightarrow> coord \<Rightarrow> coord" where
  "consume self env lcl c =
     (case items (data_q c) of
        [] \<Rightarrow> c
      | it # rest \<Rightarrow>
          (let q = (data_q c)\<lparr>items := rest\<rparr>
           in (case it of
                 Finish \<Rightarrow> c\<lparr>data_q := q, consumer := Done\<rparr>
               | Outcome outc \<Rightarrow>
                   (let k = handle_item self env lcl outc (sink c)
                    in (case task_done q of
                          Inl e \<Rightarrow> c\<lparr>data_q := q, sink := k, consumer := Failed e\<rparr>
                        | Inr q' \<Rightarrow> c\<lparr>data_q := q', sink := k\<rparr>)))))"

text \<open>
  \<open>run()\<close> awaits \<open>save_task\<close> only. Once \<open>save_task\<close> has ended, \<open>run()\<close> goes on
  without a suspension and \<open>asyncio.run\<close> cancels what is left of \<open>download_task\<close>, so
  no further step of the tasks happens.
\<close>

definition exec_event :: "config \<Rightarrow> env \<Rightarrow> locals \<Rightarrow> event \<Rightarrow> coord \<Rightarrow> coord" where
  "exec_event self env lcl ev c =
     (if consumer c \<noteq> Running then c
      else (case ev of
              Acquire key \<Rightarrow> acquire key c
            | Complete key \<Rightarrow> complete self env key c
            | Gathered \<Rightarrow> gathered c
            | JoinReturns \<Rightarrow> join_returns c
            | Consume \<Rightarrow> consume self env lcl c))"

fun run_events :: "config \<Rightarrow> env \<Rightarrow> locals \<Rightarrow> event list \<Rightarrow> coord \<Rightarrow> coord" where
  "run_events self env lcl [] c = c"
| "run_events self env lcl (ev # evs) c = run_events self env lcl evs (exec_event self env lcl ev c)"

definition init_coord :: "config \<Rightarrow> locals \<Rightarrow> coord" where
  "init_coord self lcl =
     \<lparr>waiting = key_url_list lcl, inflight = [], semaphore = nat (self_thread_count self),
      data_q = \<lparr>items = [], unfinished_tasks = 0\<rparr>,
      producer = Gathering, consumer = Running,
      sink = \<lparr>successes = 0, failed_to_download = 0, failed_to_resize = 0,
               status_dict = [], writes = [], stdout = []\<rparr>\<rparr>"

subsection \<open>The shard run and its failure boundary\<close>

text \<open>
  The effects of a shard run on its collaborators, in order: the writer is
  constructed, a \<open>write\<close> is called, \<open>close\<close> has returned, \<open>write_stats\<close> has returned,
  \<open>fs.rm\<close> has removed the source.
\<close>

datatype effect = WriterCreated | Written write_call | Closed | StatsEmitted stats | Removed string

record shard_run =
  run_result :: "unit result"
  run_effects :: "effect list"
  run_coord :: "coord option"

definition shard_stats :: "locals \<Rightarrow> sink \<Rightarrow> stats" where
  "shard_stats lcl k =
     \<lparr>st_count = length (shard_to_dl lcl), st_successes = successes k,
      st_failed_to_download = failed_to_download k, st_failed_to_resize = failed_to_resize k,
      st_status_dict = status_dict k\<rparr>"

text \<open>
  Lines 316 to 339, after the coordinator: \<open>sample_writer.close()\<close> inside \<open>run()\<close>,
  then \<open>write_stats\<close>, then \<open>fs.rm(shard_path)\<close>; each may raise, and a raise ends the
  shard run there.
\<close>

definition finish_shard :: "env \<Rightarrow> locals \<Rightarrow> string \<Rightarrow> coord \<Rightarrow> effect list \<Rightarrow> shard_run" where
  "finish_shard env lcl shard_file c fx =
     (case writer_close env of
        Some e \<Rightarrow> \<lparr>run_result = Raise e, run_effects = fx, run_coord = Some c\<rparr>
      | None \<Rightarrow>
          (case write_stats env (shard_stats lcl (sink c)) of
             Some e \<Rightarrow> \<lparr>run_result = Raise e, run_effects = fx @ [Closed], run_coord = Some c\<rparr>
           | None \<Rightarrow>
               (case fs_rm env shard_file of
                  Some e \<Rightarrow>
                    \<lparr>run_result = Raise e,
                     run_effects = fx @ [Closed, StatsEmitted (shard_stats lcl (sink c))],
                     run_coord = Some c\<rparr>
                | None \<Rightarrow>
                    \<lparr>run_result = Return (),
                     run_effects = fx @ [Closed, StatsEmitted (shard_stats lcl (sink c)),
                                         Removed shard_file],
                     run_coord = Some c\<rparr>)))"

text \<open>
  Lines 146 to 193 and the first line of \<open>run()\<close>: load the shard, construct the
  writer, compute the per-shard digit width, create the semaphore. A raise ends the
  shard run with the effects so far. \<open>math.log10\<close> raises for a non-positive argument
  and \<open>asyncio.Semaphore\<close> for a negative one.
\<close>

definition prepare :: "config \<Rightarrow> env \<Rightarrow> int \<times> string \<Rightarrow> (exn \<times> effect list) + locals" where
  "prepare self env row =
     (case load_shard self env row of
        Inl e \<Rightarrow> Inl (e, [])
      | Inr lcl0 \<Rightarrow>
          (case writer_init env of
             Some e \<Rightarrow> Inl (e, [])
           | None \<Rightarrow>
               if self_number_sample_per_shard self \<le> 0
               then Inl (Exn ''math domain error'', [WriterCreated])
               else if self_thread_count self < 0
               then Inl (Exn ''Semaphore initial value must be >= 0'', [WriterCreated])
               else Inr (lcl0\<lparr>l_oom_sample_per_shard :=
                                 math_ceil_log10 env (self_number_sample_per_shard self)\<rparr>)))"

text \<open>
  What follows the event loop, given the state \<open>c\<close> in which the tasks were left: if
  \<open>save_task\<close> has not ended, \<open>asyncio.run\<close> does not return; if it ended with an
  exception, that is raised; otherwise the shard is finished.
\<close>

definition after_loop :: "env \<Rightarrow> locals \<Rightarrow> string \<Rightarrow> coord \<Rightarrow> shard_run" where
  "after_loop env lcl shard_file c =
     (case consumer c of
        Running \<Rightarrow>
          \<lparr>run_result = Hang, run_effects = WriterCreated # map Written (writes (sink c)),
           run_coord = Some c\<rparr>
      | Failed e \<Rightarrow>
          \<lparr>run_result = Raise e, run_effects = WriterCreated # map Written (writes (sink c)),
           run_coord = Some c\<rparr>
      | Done \<Rightarrow>
          finish_shard env lcl shard_file c (WriterCreated # map Written (writes (sink c))))"

text \<open>
  \<open>download_shard\<close> for one schedule of the event loop. A schedule that ends before
  \<open>save_task\<close> has ended stands for a run in which \<open>asyncio.run\<close> does not return.
\<close>

definition download_shard :: "config \<Rightarrow> env \<Rightarrow> event list \<Rightarrow> int \<times> string \<Rightarrow> shard_run" where
  "download_shard self env schedule row =
     (case prepare self env row of
        Inl (e, fx) \<Rightarrow> \<lparr>run_result = Raise e, run_effects = fx, run_coord = None\<rparr>
      | Inr lcl \<Rightarrow>
          after_loop env lcl (snd row) (run_events self env lcl schedule (init_coord self lcl)))"

text \<open>
  \<^verbatim>\<open>
  def __call__(self, row):
      try:
          self.download_shard(row)
          return (True, row)
      except Exception as err:
          traceback.print_exc()
          print(f"shard {row[0]} failed with error {err}")
          return (False, row)
  \<close>
  The second component is what the handler prints: the shard id and the error text.
\<close>

definition call :: "config \<Rightarrow> env \<Rightarrow> event list \<Rightarrow> int \<times> string
    \<Rightarrow> (bool \<times> int \<times> string) result \<times> (int \<times> string) list" where
  "call self env schedule row =
     (case run_result (download_shard self env schedule row) of
        Return u \<Rightarrow> (Return (True, row), [])
      | Raise (Exn msg) \<Rightarrow> (Return (False, row), [(fst row, msg)])
      | Hang \<Rightarrow> (Hang, []))"

subsection \<open>Invariants of the coordinator\<close>

text \<open>
  The notions below are used to state and prove what holds in every state the two
  tasks can reach. \<open>outcome_keys\<close> lists the local keys of the outcomes in a queue;
  \<open>pending_keys\<close> the local keys that are still on their way to the consumer;
  \<open>str_key_of\<close> is the Sample Key of a local key in this shard (line 222).
\<close>

definition outcome_keys :: "item list \<Rightarrow> int list" where
  "outcome_keys its = concat (map (\<lambda>it. case it of Outcome outc \<Rightarrow> [fst outc] | Finish \<Rightarrow> []) its)"

definition pending_keys :: "coord \<Rightarrow> int list" where
  "pending_keys c = map fst (waiting c) @ map fst (inflight c) @ outcome_keys (items (data_q c))"

definition str_key_of :: "config \<Rightarrow> locals \<Rightarrow> int \<Rightarrow> string" where
  "str_key_of self lcl key =
     compute_key key (l_shard_id lcl) (l_oom_sample_per_shard lcl) (self_oom_shard_count self)"

text \<open>
  Control: \<open>save_task\<close> never ends with an exception of its own; while \<open>download_task\<close>
  gathers (or has failed) the sentinel is not in the queue and the counter equals the
  number of queued items; once the sentinel is put all fetch tasks are complete, the
  sentinel is the last item until the consumer takes it, and after that the queue is
  empty and the counter is one; \<open>join\<close> never returns.
\<close>

definition control_inv :: "coord \<Rightarrow> bool" where
  "control_inv c =
     ((\<forall>e. consumer c \<noteq> Failed e) \<and>
      (case producer c of
         Gathering \<Rightarrow> consumer c = Running \<and> Finish \<notin> set (items (data_q c))
            \<and> unfinished_tasks (data_q c) = length (items (data_q c))
       | ProducerFailed e \<Rightarrow> consumer c = Running \<and> Finish \<notin> set (items (data_q c))
            \<and> unfinished_tasks (data_q c) = length (items (data_q c))
       | Joining \<Rightarrow> waiting c = [] \<and> inflight c = [] \<and>
            (if consumer c = Done
             then items (data_q c) = [] \<and> unfinished_tasks (data_q c) = 1
             else (\<exists>outs. items (data_q c) = outs @ [Finish] \<and> Finish \<notin> set outs)
                  \<and> unfinished_tasks (data_q c) = length (items (data_q c)))
       | JoinReturned \<Rightarrow> False))"

text \<open>
  Accounting: as long as the handler has printed nothing and no fetch task has raised,
  the Sample Keys of the pending local keys together with the keys written so far are
  the Sample Keys of the work list, each as often as there.
\<close>

definition account_inv :: "config \<Rightarrow> locals \<Rightarrow> coord \<Rightarrow> bool" where
  "account_inv self lcl c =
     (stdout (sink c) = [] \<and> (\<forall>e. producer c \<noteq> ProducerFailed e) \<longrightarrow>
        mset (map (str_key_of self lcl) (pending_keys c)) + mset (map w_key (writes (sink c)))
          = mset (map (str_key_of self lcl) (map fst (key_url_list lcl))))"

subsection \<open>A schedule that fetches the rows one after the other\<close>

definition fetch_all :: "int list \<Rightarrow> event list" where
  "fetch_all keys = concat (map (\<lambda>k. [Acquire k, Complete k]) keys)"

subsection \<open>A small shard for concrete runs\<close>

text \<open>
  Two rows with columns \<open>url\<close> and \<open>caption\<close>; the first URL is fetched at once, the
  second times out at every attempt; two fetches may be in flight, and the second row
  completes first. \<open>demo_lcl\<close> is what \<open>download_shard\<close> computes from this shard
  before it starts the event loop, \<open>demo_sink\<close> the sink at that point.
\<close>

definition demo_self :: config where
  "demo_self = \<lparr>self_column_list = [''url'', ''caption''], self_extract_exif = False,
     self_compute_hash = None, self_oom_shard_count = 1, self_number_sample_per_shard = 10,
     self_retries = 1, self_thread_count = 2, self_user_agent_token = None,
     self_disallowed_header_directives = None, self_blurring_bbox_col = None\<rparr>"

definition demo_env :: env where
  "demo_env = \<lparr>src_read = (\<lambda>p. Inr [(''url'', [PStr ''a'', PStr ''b'']),
                                    (''caption'', [PStr ''ca'', PStr ''cb''])]),
     writer_init = None,
     net = (\<lambda>k i u. if k = 0
                    then Inr \<lparr>resp_headers = [], resp_read = Inr ''img0'', resp_exit = None\<rparr>
                    else Inl (Exn ''timeout'')),
     resizer = (\<lambda>b bb. Inr (Some b, PInt 1, PInt 1, PInt 2, PInt 2, None)),
     writer_write = (\<lambda>c. None),
     exif_of = (\<lambda>b. Inr ''{}''),
     hash_of = (\<lambda>h b. Inr ''00''),
     writer_close = None,
     write_stats = (\<lambda>s. None),
     fs_rm = (\<lambda>p. None),
     math_ceil_log10 = (\<lambda>n. if n \<le> 1 then 0 else if n \<le> 10 then 1 else 2)\<rparr>"

definition demo_schedule :: "event list" where
  "demo_schedule =
     [Acquire 0, Acquire 1, Complete 1, Complete 0, Gathered, Consume, Consume, Consume]"

definition demo_lcl :: locals where
  "demo_lcl = \<lparr>l_shard_id = 3,
     shard_to_dl = [(0, [PStr ''a'', PStr ''ca'']), (1, [PStr ''b'', PStr ''cb''])],
     url_indice = 0, caption_indice = Some 1, bbox_indice = None,
     key_url_list = [(0, PStr ''a''), (1, PStr ''b'')],
     l_oom_sample_per_shard = 1\<rparr>"


section \<open>Properties of the Key Codec\<close>

declare digits10.simps [simp del]

lemma digit_val_digit_char: "d < 10 \<Longrightarrow> digit_val (digit_char d) = d"
  by (simp add: digit_val_def digit_char_def)

lemma is_digit_digit_char: "d < 10 \<Longrightarrow> is_digit (digit_char d)"
  by (simp add: is_digit_def digit_char_def)

lemma dec_value_append:
  "dec_value (s @ [c]) = 10 * dec_value s + digit_val c"
  by (simp add: dec_value_def)

lemma dec_value_digits10: "dec_value (digits10 n) = n"
proof (induction n rule: digits10.induct)
  case (1 n)
  show ?case
  proof (cases "n < 10")
    case True
    then show ?thesis
      by (subst digits10.simps) (simp add: dec_value_def digit_val_digit_char)
  next
    case False
    with 1 have "dec_value (digits10 (n div 10)) = n div 10" by simp
    with False show ?thesis
      by (subst digits10.simps) (simp add: dec_value_append digit_val_digit_char)
  qed
qed

lemma digits10_all_digits: "c \<in> set (digits10 n) \<Longrightarrow> is_digit c"
proof (induction n rule: digits10.induct)
  case (1 n)
  show ?case
  proof (cases "n < 10")
    case True
    with "1.prems" show ?thesis
      by (subst (asm) digits10.simps) (simp add: is_digit_digit_char)
  next
    case False
    with "1.prems" have "c \<in> set (digits10 (n div 10)) \<or> c = digit_char (n mod 10)"
      by (subst (asm) digits10.simps) auto
    with 1 False show ?thesis
      by (auto simp: is_digit_digit_char)
  qed
qed

lemma length_digits10_pos: "0 < length (digits10 n)"
  by (subst digits10.simps) simp

lemma length_digits10_le: "0 < w \<Longrightarrow> n < 10 ^ w \<Longrightarrow> length (digits10 n) \<le> w"
proof (induction n arbitrary: w rule: digits10.induct)
  case (1 n)
  show ?case
  proof (cases "n < 10")
    case True
    with "1.prems" show ?thesis
      by (subst digits10.simps) simp
  next
    case False
    obtain v where w: "w = Suc v"
      using "1.prems"(1) by (cases w) auto
    have "0 < v"
    proof (rule ccontr)
      assume "\<not> 0 < v"
      with w "1.prems"(2) False show False by simp
    qed
    moreover have "n div 10 < 10 ^ v"
      using "1.prems"(2) w by (simp add: less_mult_imp_div_less mult.commute)
    ultimately have "length (digits10 (n div 10)) \<le> v"
      using 1 False by simp
    with False w show ?thesis
      by (subst digits10.simps) simp
  qed
qed

lemma dec_value_zeros: "dec_value (replicate k (CHR ''0'') @ s) = dec_value s"
proof -
  have "foldl (\<lambda>a c. 10 * a + digit_val c) 0 (replicate k (CHR ''0'')) = 0"
    by (induction k) (simp_all add: digit_val_def)
  then show ?thesis by (simp add: dec_value_def)
qed

lemma dec_value_zfill: "dec_value (zfill w (digits10 n)) = n"
  by (simp add: zfill_def dec_value_zeros dec_value_digits10)

lemma length_zfill: "length (zfill w s) = max w (length s)"
  by (simp add: zfill_def)

lemma zfill_all_digits: "c \<in> set (zfill w (digits10 n)) \<Longrightarrow> is_digit c"
  by (auto simp: zfill_def is_digit_def dest: digits10_all_digits)

lemma format_0d_nonneg: "0 \<le> n \<Longrightarrow> format_0d w n = zfill w (digits10 (nat n))"
  by (simp add: format_0d_def)

lemma hd_zfill_digit: "is_digit (hd (zfill w (digits10 n)))"
proof -
  have "zfill w (digits10 n) \<noteq> []"
    using length_digits10_pos [of n] by (simp add: zfill_def)
  then have "hd (zfill w (digits10 n)) \<in> set (zfill w (digits10 n))"
    by simp
  then show ?thesis by (rule zfill_all_digits)
qed

lemma format_0d_inj: "format_0d w a = format_0d w b \<Longrightarrow> a = b"
proof -
  assume eq: "format_0d w a = format_0d w b"
  have minus: "\<not> is_digit (CHR ''-'')" by (simp add: is_digit_def)
  consider (nn) "0 \<le> a" "0 \<le> b" | (neg) "a < 0" "b < 0"
    | (m1) "a < 0" "0 \<le> b" | (m2) "0 \<le> a" "b < 0"
    by linarith
  then show ?thesis
  proof cases
    case nn
    with eq have "dec_value (zfill w (digits10 (nat a))) = dec_value (zfill w (digits10 (nat b)))"
      by (simp add: format_0d_def)
    with nn show ?thesis by (simp add: dec_value_zfill)
  next
    case neg
    with eq have "dec_value (zfill (w - 1) (digits10 (nat (- a))))
        = dec_value (zfill (w - 1) (digits10 (nat (- b))))"
      by (simp add: format_0d_def)
    with neg show ?thesis by (simp add: dec_value_zfill)
  next
    case m1
    from eq have "hd (format_0d w b) = hd (format_0d w a)" by simp
    with m1 have "hd (zfill w (digits10 (nat b))) = CHR ''-''"
      by (simp add: format_0d_def)
    with hd_zfill_digit [of w "nat b"] minus show ?thesis by simp
  next
    case m2
    from eq have "hd (format_0d w a) = hd (format_0d w b)" by simp
    with m2 have "hd (zfill w (digits10 (nat a))) = CHR ''-''"
      by (simp add: format_0d_def)
    with hd_zfill_digit [of w "nat a"] minus show ?thesis by simp
  qed
qed

lemma true_key_bound:
  fixes shard_id key :: int
  assumes "0 \<le> shard_id" "0 \<le> key" "shard_id < 10 ^ w_c" "key < 10 ^ w_s"
  shows "0 \<le> 10 ^ w_s * shard_id + key \<and> 10 ^ w_s * shard_id + key < 10 ^ (w_s + w_c)"
proof -
  have "shard_id + 1 \<le> 10 ^ w_c" using assms by simp
  then have "10 ^ w_s * (shard_id + 1) \<le> (10::int) ^ w_s * 10 ^ w_c"
    by (rule mult_left_mono) simp
  then have "10 ^ w_s * shard_id + 10 ^ w_s \<le> (10::int) ^ (w_s + w_c)"
    by (simp add: power_add algebra_simps)
  with assms show ?thesis by simp
qed

lemma true_key_unique:
  fixes s k s' k' :: int
  assumes "0 \<le> k" "k < 10 ^ w" "0 \<le> k'" "k' < 10 ^ w" "10 ^ w * s + k = 10 ^ w * s' + k'"
  shows "s = s' \<and> k = k'"
proof -
  have "(10 ^ w * s + k) div 10 ^ w = s" using assms(1,2) by simp
  moreover have "(10 ^ w * s' + k') div 10 ^ w = s'" using assms(3,4) by simp
  ultimately have "s = s'" using assms(5) by simp
  with assms(5) show ?thesis by simp
qed

lemma length_format_0d:
  assumes "0 \<le> n" "n < 10 ^ w"
  shows "length (format_0d w n) = max 1 w"
proof (cases "w = 0")
  case True
  with assms have "n = 0" by simp
  with True show ?thesis
    by (simp add: format_0d_def zfill_def digits10.simps)
next
  case False
  have "nat n < 10 ^ w" using assms
    by (metis nat_less_iff of_nat_numeral of_nat_power)
  with False have "length (digits10 (nat n)) \<le> w"
    by (simp add: length_digits10_le)
  with False assms show ?thesis
    by (simp add: format_0d_def length_zfill)
qed

text \<open>
  Claim C5, as the code has it. For non-negative \<open>shard_id < 10 ^ w_c\<close> and
  \<open>key < 10 ^ w_s\<close>, \<open>compute_key key shard_id w_s w_c\<close> is a string of decimal digits
  whose value is \<open>10 ^ w_s * shard_id + key\<close>; its length is \<open>w_s + w_c\<close> whenever that
  total width is at least one, and one character (the single digit \<open>0\<close>) when both widths
  are zero, since the format width is a minimum and a number always has a digit. On this
  domain the map from \<open>(shard_id, key)\<close> to the string is injective.
\<close>

theorem compute_key_padded_injective:
  assumes "0 \<le> shard_id" and "0 \<le> key" and "shard_id < 10 ^ w_c" and "key < 10 ^ w_s"
  shows "length (compute_key key shard_id w_s w_c) = max 1 (w_s + w_c)
    \<and> list_all is_digit (compute_key key shard_id w_s w_c)
    \<and> int (dec_value (compute_key key shard_id w_s w_c)) = 10 ^ w_s * shard_id + key
    \<and> (\<forall>key' shard_id'. 0 \<le> shard_id' \<and> 0 \<le> key' \<and> shard_id' < 10 ^ w_c \<and> key' < 10 ^ w_s
          \<and> compute_key key' shard_id' w_s w_c = compute_key key shard_id w_s w_c
          \<longrightarrow> shard_id' = shard_id \<and> key' = key)"
proof -
  let ?t = "10 ^ w_s * shard_id + key"
  have b: "0 \<le> ?t" "?t < 10 ^ (w_s + w_c)"
    using true_key_bound [OF assms] by simp_all
  have ck: "compute_key key shard_id w_s w_c = format_0d (w_s + w_c) ?t"
    by (simp add: compute_key_def)
  have len: "length (compute_key key shard_id w_s w_c) = max 1 (w_s + w_c)"
    unfolding ck using b by (rule length_format_0d)
  have dig: "list_all is_digit (compute_key key shard_id w_s w_c)"
    unfolding ck using b(1) by (auto simp: format_0d_nonneg list_all_iff dest: zfill_all_digits)
  have val: "int (dec_value (compute_key key shard_id w_s w_c)) = ?t"
    unfolding ck using b(1) by (simp add: format_0d_nonneg dec_value_zfill)
  have inj: "shard_id' = shard_id \<and> key' = key"
    if "0 \<le> key'" "key' < 10 ^ w_s"
      "compute_key key' shard_id' w_s w_c = compute_key key shard_id w_s w_c"
    for key' shard_id'
  proof -
    from that(3) have "10 ^ w_s * shard_id' + key' = ?t"
      by (simp add: compute_key_def format_0d_inj)
    with true_key_unique [OF that(1,2) assms(2,4)] show ?thesis by simp
  qed
  from len dig val inj show ?thesis by blast
qed

theorem compute_key_padded_injective_witness:
  "(0::int) \<le> 3 \<and> (0::int) \<le> 7 \<and> (3::int) < 10 ^ (1::nat) \<and> (7::int) < 10 ^ (2::nat)
   \<and> compute_key 7 3 2 1 = ''307'' \<and> length (compute_key 7 3 2 1) = 3
   \<and> dec_value (compute_key 7 3 2 1) = 307"
proof -
  have e: "compute_key 7 3 2 1 = ''307''" by code_simp
  have h: "(0::int) \<le> 3" "(0::int) \<le> 7" "(3::int) < 10 ^ (1::nat)" "(7::int) < 10 ^ (2::nat)"
    by simp_all
  from compute_key_padded_injective [OF h] e show ?thesis by simp
qed

text \<open>
  Claim C5 as stated asks for exactly \<open>w_s + w_c\<close> characters on the whole domain. With
  both widths zero the only admissible pair is \<open>(0, 0)\<close>, and the key is the one-character
  string \<open>0\<close>, not the empty string.
\<close>

theorem compute_key_width_counterexample:
  "(0::int) \<le> 0 \<and> (0::int) < 10 ^ (0::nat) \<and> compute_key 0 0 0 0 = ''0''
   \<and> length (compute_key 0 0 0 0) \<noteq> 0 + 0"
proof -
  have e: "compute_key 0 0 0 0 = ''0''" by code_simp
  then show ?thesis by simp
qed

section \<open>Properties of the Policy Filter\<close>

text \<open>The two string splits are what their names say.\<close>

lemma split1_colon_free: "sep \<notin> set s \<Longrightarrow> split1 sep s = [s]"
  by (simp add: split1_def)

lemma takeWhile_first: "sep \<notin> set t \<Longrightarrow> takeWhile (\<lambda>c. c \<noteq> sep) (t @ sep # r) = t"
  by (induction t) auto

lemma dropWhile_first: "sep \<notin> set t \<Longrightarrow> dropWhile (\<lambda>c. c \<noteq> sep) (t @ sep # r) = sep # r"
  by (induction t) auto

lemma split1_first: "sep \<notin> set t \<Longrightarrow> split1 sep (t @ sep # r) = [t, r]"
  by (simp add: split1_def takeWhile_first dropWhile_first)

lemma spec_token_first: "CHR '':'' \<notin> set t \<Longrightarrow> spec_token (t @ CHR '':'' # r) = Some t"
  by (simp add: spec_token_def takeWhile_first)

lemma spec_directive_text_first:
  "CHR '':'' \<notin> set t \<Longrightarrow> spec_directive_text (t @ CHR '':'' # r) = r"
  by (simp add: spec_directive_text_def dropWhile_first)

lemma split_all_nonempty: "split_all sep s \<noteq> []"
  by (induction s) (auto split: list.splits)

lemma split_all_fields: "w \<in> set (split_all sep s) \<Longrightarrow> sep \<notin> set w"
  by (induction s arbitrary: w) (auto split: if_splits list.splits)










section \<open>Properties of the Fetcher\<close>

text \<open>
  Claim C3. For every row \<open>(key, url)\<close> and every behaviour of the session,
  \<open>download_image\<close> does not raise: it returns a triple with the input key in which
  exactly one of payload and error is present. The payload is present only for a
  response that was not rejected, whose body was read and whose block was left without
  an exception, and is then the whole body; an exception raised on entering the request,
  on reading the body or on leaving the block, and a policy rejection, each give an
  absent payload and a present error text.
\<close>

theorem download_image_returns_outcome:
  "\<exists>payload err.
      download_image (key, url) session tok D = Inr (key, payload, err)
    \<and> (payload = None) \<noteq> (err = None)
    \<and> (\<forall>body. payload = Some body \<longrightarrow>
          (\<exists>resp. session url = Inr resp \<and> resp_exit resp = None \<and> resp_read resp = Inr body
             \<and> \<not> (truthy D \<and> fst (is_disallowed (resp_headers resp) tok D))))
    \<and> (\<forall>m. session url = Inl (Exn m) \<longrightarrow> payload = None \<and> err = Some m)
    \<and> (\<forall>resp m. session url = Inr resp \<and> resp_exit resp = Some (Exn m)
          \<longrightarrow> payload = None \<and> err = Some m)
    \<and> (\<forall>resp. session url = Inr resp \<and> resp_exit resp = None
             \<and> truthy D \<and> fst (is_disallowed (resp_headers resp) tok D)
          \<longrightarrow> payload = None \<and> err = Some policy_rejection)
    \<and> (\<forall>resp m. session url = Inr resp \<and> resp_exit resp = None
             \<and> \<not> (truthy D \<and> fst (is_disallowed (resp_headers resp) tok D))
             \<and> resp_read resp = Inl (Exn m)
          \<longrightarrow> payload = None \<and> err = Some m)
    \<and> (\<forall>resp body. session url = Inr resp \<and> resp_exit resp = None
             \<and> \<not> (truthy D \<and> fst (is_disallowed (resp_headers resp) tok D))
             \<and> resp_read resp = Inr body
          \<longrightarrow> payload = Some body \<and> err = None)"
  by (auto simp: download_image_def download_image_try_def async_with_def
      split: sum.splits option.splits exn.splits)

theorem download_image_returns_outcome_witness:
  "download_image (5, ''u'') (\<lambda>url. Inl (Exn ''timeout'')) None None
     = Inr (5, None, Some ''timeout'')
   \<and> download_image (5, ''u'')
       (\<lambda>url. Inr \<lparr>resp_headers = [], resp_read = Inr ''img'', resp_exit = None\<rparr>) None None
     = Inr (5, Some ''img'', None)
   \<and> download_image (5, ''u'')
       (\<lambda>url. Inr \<lparr>resp_headers = [(''X-Robots-Tag'', ''noindex'')], resp_read = Inr ''img'',
                  resp_exit = None\<rparr>) None (Some {''noindex''})
     = Inr (5, None, Some policy_rejection)"
proof -
  have a: "download_image (5, ''u'') (\<lambda>url. Inl (Exn ''timeout'')) None None
     = Inr (5, None, Some ''timeout'')"
    by code_simp
  have b: "download_image (5, ''u'')
       (\<lambda>url. Inr \<lparr>resp_headers = [], resp_read = Inr ''img'', resp_exit = None\<rparr>) None None
     = Inr (5, Some ''img'', None)"
    by code_simp
  have c: "download_image (5, ''u'')
       (\<lambda>url. Inr \<lparr>resp_headers = [(''X-Robots-Tag'', ''noindex'')], resp_read = Inr ''img'',
                  resp_exit = None\<rparr>) None (Some {''noindex''})
     = Inr (5, None, Some policy_rejection)"
    by code_simp
  from download_image_returns_outcome [of 5 "''u''" "\<lambda>url. Inl (Exn ''timeout'')" None None] a b c
  show ?thesis by simp
qed

text \<open>
  Claim C10. When the configured directive set is \<open>None\<close> or empty, the result of
  \<open>download_image\<close> does not depend on the response headers or on the token (the
  Policy Filter plays no part): it is the success carrying the body, or the failure
  carrying the text of the exception raised on entering the request, on leaving the
  block or on reading the body. So the fixed rejection message is returned then only
  if an exception carries that very text.
\<close>

theorem download_image_unfiltered:
  assumes "D = None \<or> D = Some {}"
  shows "download_image (key, url) session tok D =
     (case session url of
        Inl (Exn m) \<Rightarrow> Inr (key, None, Some m)
      | Inr resp \<Rightarrow>
          (case resp_exit resp of
             Some (Exn m) \<Rightarrow> Inr (key, None, Some m)
           | None \<Rightarrow>
               (case resp_read resp of
                  Inl (Exn m) \<Rightarrow> Inr (key, None, Some m)
                | Inr body \<Rightarrow> Inr (key, Some body, None))))"
  using assms
  by (auto simp: download_image_def download_image_try_def async_with_def truthy_def
      split: sum.splits option.splits exn.splits)

theorem download_image_unfiltered_witness:
  "download_image (5, ''u'')
       (\<lambda>url. Inr \<lparr>resp_headers = [(''X-Robots-Tag'', ''noindex'')], resp_read = Inr ''img'',
                  resp_exit = None\<rparr>) None None
     = Inr (5, Some ''img'', None)
   \<and> download_image (5, ''u'')
       (\<lambda>url. Inr \<lparr>resp_headers = [(''X-Robots-Tag'', ''noindex'')], resp_read = Inr ''img'',
                  resp_exit = None\<rparr>) None (Some {})
     = Inr (5, Some ''img'', None)"
proof -
  have h: "(None :: string set option) = None \<or> (None :: string set option) = Some {}"
    by simp
  have h': "Some ({} :: string set) = None \<or> Some ({} :: string set) = Some {}"
    by simp
  from download_image_unfiltered [OF h, of 5 "''u''"
      "\<lambda>url. Inr \<lparr>resp_headers = [(''X-Robots-Tag'', ''noindex'')], resp_read = Inr ''img'',
                  resp_exit = None\<rparr>" None]
    download_image_unfiltered [OF h', of 5 "''u''"
      "\<lambda>url. Inr \<lparr>resp_headers = [(''X-Robots-Tag'', ''noindex'')], resp_read = Inr ''img'',
                  resp_exit = None\<rparr>" None]
  show ?thesis by simp
qed

lemma download_image_Inr: "\<exists>p e. download_image row session tok D = Inr (fst row, p, e)"
  by (cases row)
     (auto simp: download_image_def download_image_try_def async_with_def
       split: sum.splits exn.splits option.splits)

lemma retry_loop_Suc:
  "\<exists>calls out. retry_loop (Suc n) i row session tok D cur = Inr (calls, Some out)
     \<and> i < calls \<and> calls \<le> i + Suc n
     \<and> download_image row (session (calls - 1)) tok D = Inr out
     \<and> (\<forall>j. i \<le> j \<and> j < calls - 1 \<longrightarrow> (\<exists>k e. download_image row (session j) tok D = Inr (k, None, e)))
     \<and> (fst (snd out) = None \<longrightarrow> calls = i + Suc n)"
proof (induction n arbitrary: i cur)
  case 0
  obtain p e where d: "download_image row (session i) tok D = Inr (fst row, p, e)"
    using download_image_Inr by blast
  then show ?case by (cases p) auto
next
  case (Suc n)
  obtain p e where d: "download_image row (session i) tok D = Inr (fst row, p, e)"
    using download_image_Inr by blast
  show ?case
  proof (cases p)
    case (Some b)
    with d show ?thesis by auto
  next
    case None
    from Suc.IH [of "Suc i" "Some (fst row, p, e)"] obtain calls out where
      r: "retry_loop (Suc n) (Suc i) row session tok D (Some (fst row, p, e)) = Inr (calls, Some out)"
      and b: "Suc i < calls" "calls \<le> Suc i + Suc n"
      and l: "download_image row (session (calls - 1)) tok D = Inr out"
      and f: "\<forall>j. Suc i \<le> j \<and> j < calls - 1 \<longrightarrow> (\<exists>k e. download_image row (session j) tok D = Inr (k, None, e))"
      and m: "fst (snd out) = None \<longrightarrow> calls = Suc i + Suc n"
      by (elim exE conjE) (rule that)
    have res: "retry_loop (Suc (Suc n)) i row session tok D cur = Inr (calls, Some out)"
      using d None r by (subst retry_loop.simps) simp
    have fails: "\<exists>k e. download_image row (session j) tok D = Inr (k, None, e)"
      if "i \<le> j" "j < calls - 1" for j
    proof (cases "j = i")
      case True
      with d None show ?thesis by auto
    next
      case False
      with that f show ?thesis by auto
    qed
    from res b l fails m show ?thesis by auto
  qed
qed

text \<open>
  Claim C4. For \<open>retries \<ge> 0\<close>, \<open>download_image_with_retry\<close> does not raise; it calls
  \<open>download_image\<close> \<open>calls\<close> times with \<open>1 \<le> calls \<le> retries + 1\<close>, every attempt
  before the last one made has an absent payload, and exactly one outcome is appended
  to the queue, that of the last attempt made; if that outcome has an absent payload
  then all \<open>retries + 1\<close> attempts were made. So the outcome put is the first successful
  one if there is one, and otherwise the failure of attempt \<open>retries + 1\<close>.
\<close>

theorem download_image_with_retry_spec:
  assumes "0 \<le> retries"
  shows "\<exists>calls out.
      download_image_with_retry row session queue retries tok D
        = Inr (calls, queue_put (Outcome out) queue)
    \<and> 1 \<le> calls \<and> int calls \<le> retries + 1
    \<and> download_image row (session (calls - 1)) tok D = Inr out
    \<and> (\<forall>j. j < calls - 1 \<longrightarrow> (\<exists>k e. download_image row (session j) tok D = Inr (k, None, e)))
    \<and> (fst (snd out) = None \<longrightarrow> int calls = retries + 1)"
proof -
  from assms obtain n where n: "nat (retries + 1) = Suc n"
    by (cases "nat (retries + 1)") auto
  from retry_loop_Suc [of n 0 row session tok D None] obtain calls out where
    r: "retry_loop (Suc n) 0 row session tok D None = Inr (calls, Some out)"
    and b: "0 < calls" "calls \<le> Suc n"
    and l: "download_image row (session (calls - 1)) tok D = Inr out"
    and f: "\<forall>j. j < calls - 1 \<longrightarrow> (\<exists>k e. download_image row (session j) tok D = Inr (k, None, e))"
    and m: "fst (snd out) = None \<longrightarrow> calls = Suc n"
    by (elim exE conjE) (rule that, simp_all)
  have "download_image_with_retry row session queue retries tok D
      = Inr (calls, queue_put (Outcome out) queue)"
    using r n by (simp add: download_image_with_retry_def)
  moreover have "int calls \<le> retries + 1" using b n by linarith
  moreover have "fst (snd out) = None \<longrightarrow> int calls = retries + 1" using m n by auto
  ultimately show ?thesis using b l f
    by (intro exI [of _ calls] exI [of _ out]) simp
qed

theorem download_image_with_retry_spec_witness:
  "(0::int) \<le> 2
   \<and> download_image_with_retry (0, ''u'')
       (\<lambda>i url. if i = 0 then Inl (Exn ''timeout'')
          else if i = 1 then Inr \<lparr>resp_headers = [], resp_read = Inl (Exn ''reset''), resp_exit = None\<rparr>
          else Inr \<lparr>resp_headers = [], resp_read = Inr ''img'', resp_exit = None\<rparr>)
       \<lparr>items = [], unfinished_tasks = 0\<rparr> 2 None None
     = Inr (3, \<lparr>items = [Outcome (0, Some ''img'', None)], unfinished_tasks = 1\<rparr>)
   \<and> download_image_with_retry (0, ''u'')
       (\<lambda>i url. Inl (Exn (if i = 0 then ''e1'' else if i = 1 then ''e2'' else ''e3'')))
       \<lparr>items = [], unfinished_tasks = 0\<rparr> 2 None None
     = Inr (3, \<lparr>items = [Outcome (0, None, Some ''e3'')], unfinished_tasks = 1\<rparr>)"
proof -
  have h: "(0::int) \<le> 2" by simp
  have a: "download_image_with_retry (0, ''u'')
       (\<lambda>i url. if i = 0 then Inl (Exn ''timeout'')
          else if i = 1 then Inr \<lparr>resp_headers = [], resp_read = Inl (Exn ''reset''), resp_exit = None\<rparr>
          else Inr \<lparr>resp_headers = [], resp_read = Inr ''img'', resp_exit = None\<rparr>)
       \<lparr>items = [], unfinished_tasks = 0\<rparr> 2 None None
     = Inr (3, \<lparr>items = [Outcome (0, Some ''img'', None)], unfinished_tasks = 1\<rparr>)"
    by code_simp
  have b: "download_image_with_retry (0, ''u'')
       (\<lambda>i url. Inl (Exn (if i = 0 then ''e1'' else if i = 1 then ''e2'' else ''e3'')))
       \<lparr>items = [], unfinished_tasks = 0\<rparr> 2 None None
     = Inr (3, \<lparr>items = [Outcome (0, None, Some ''e3'')], unfinished_tasks = 1\<rparr>)"
    by code_simp
  from download_image_with_retry_spec [OF h, of "(0, ''u'')"
      "\<lambda>i url. Inl (Exn (if i = 0 then ''e1'' else if i = 1 then ''e2'' else ''e3''))"
      "\<lparr>items = [], unfinished_tasks = 0\<rparr>" None None]
    a b
  show ?thesis by simp
qed

section \<open>Properties of the Pipeline Coordinator\<close>

lemma retry_loop_key:
  "retry_loop n i row session tok D cur = Inr (calls, Some out) \<Longrightarrow>
     (\<forall>o'. cur = Some o' \<longrightarrow> fst o' = fst row) \<Longrightarrow> fst out = fst row"
proof (induction n arbitrary: i cur)
  case 0
  then show ?case by simp
next
  case (Suc n)
  obtain p e where d: "download_image row (session i) tok D = Inr (fst row, p, e)"
    using download_image_Inr by blast
  show ?case
  proof (cases p)
    case None
    with Suc.prems(1) d
    have "retry_loop n (Suc i) row session tok D (Some (fst row, p, e)) = Inr (calls, Some out)"
      by simp
    then show ?thesis by (rule Suc.IH) simp
  next
    case (Some b)
    with Suc.prems(1) d show ?thesis by auto
  qed
qed

lemma download_image_with_retry_put:
  assumes "download_image_with_retry row session q r tok D = Inr (calls, q')"
  shows "\<exists>out. q' = queue_put (Outcome out) q \<and> fst out = fst row"
proof -
  from assms obtain out where
    r: "retry_loop (nat (r + 1)) 0 row session tok D None = Inr (calls, Some out)"
    and q: "q' = queue_put (Outcome out) q"
    by (auto simp: download_image_with_retry_def split: sum.splits option.splits)
  from r have "fst out = fst row" by (rule retry_loop_key) simp
  with q show ?thesis by blast
qed

lemma control_inv_init: "control_inv (init_coord self lcl)"
  by (simp add: control_inv_def init_coord_def)

lemma control_inv_acquire: "control_inv c \<Longrightarrow> control_inv (acquire key c)"
  by (auto simp: control_inv_def acquire_def split: option.splits producer_pc.splits)

lemma control_inv_complete: "control_inv c \<Longrightarrow> control_inv (complete self env key c)"
  by (auto simp: control_inv_def complete_def Let_def queue_put_def
      split: option.splits producer_pc.splits sum.splits
      dest!: download_image_with_retry_put)

lemma control_inv_gathered: "control_inv c \<Longrightarrow> control_inv (gathered c)"
  by (auto simp: control_inv_def gathered_def queue_put_def split: producer_pc.splits)

lemma control_inv_join_returns: "control_inv c \<Longrightarrow> control_inv (join_returns c)"
  by (auto simp: control_inv_def join_returns_def split: producer_pc.splits if_splits)

lemma control_inv_consume:
  assumes "control_inv c" "consumer c = Running"
  shows "control_inv (consume self env lcl c)"
proof (cases "items (data_q c)")
  case Nil
  with assms show ?thesis by (simp add: consume_def)
next
  case (Cons it rest)
  show ?thesis
  proof (cases it)
    case Finish
    with Cons assms show ?thesis
      by (auto simp: control_inv_def consume_def split: producer_pc.splits
          simp: Cons_eq_append_conv)
  next
    case (Outcome outc)
    with Cons assms show ?thesis
      by (auto simp: control_inv_def consume_def task_done_def Let_def
          split: producer_pc.splits simp: Cons_eq_append_conv)
  qed
qed

lemma control_inv_exec: "control_inv c \<Longrightarrow> control_inv (exec_event self env lcl ev c)"
  by (cases ev)
     (simp_all add: exec_event_def control_inv_acquire control_inv_complete
        control_inv_gathered control_inv_join_returns control_inv_consume)

lemma control_inv_run: "control_inv c \<Longrightarrow> control_inv (run_events self env lcl evs c)"
  by (induction evs arbitrary: c) (simp_all add: control_inv_exec)


lemma try_item_stdout: "stdout (snd (try_item self env lcl outc k)) = stdout k"
  by (auto simp: try_item_def do_write_def Let_def
      split: prod.splits sum.splits option.splits)

lemma try_item_None:
  "try_item self env lcl outc k = (None, k') \<Longrightarrow>
     \<exists>c. writes k' = writes k @ [c] \<and> w_key c = str_key_of self lcl (fst outc)"
  by (auto simp: try_item_def do_write_def Let_def str_key_of_def
      split: prod.splits sum.splits option.splits)

lemma handle_item_clean:
  assumes "stdout (handle_item self env lcl outc k) = []"
  shows "stdout k = [] \<and> (\<exists>c. writes (handle_item self env lcl outc k) = writes k @ [c]
            \<and> w_key c = str_key_of self lcl (fst outc))"
proof (cases "try_item self env lcl outc k")
  case (Pair raised k')
  have s: "stdout k' = stdout k"
    using try_item_stdout [of self env lcl outc k] Pair by simp
  show ?thesis
  proof (cases raised)
    case None
    with Pair assms s try_item_None [of self env lcl outc k k'] show ?thesis
      by (simp add: handle_item_def)
  next
    case (Some e)
    with Pair assms show ?thesis
      by (cases e) (simp add: handle_item_def)
  qed
qed

lemma outcome_keys_append: "outcome_keys (xs @ ys) = outcome_keys xs @ outcome_keys ys"
  by (simp add: outcome_keys_def)

lemma account_inv_init: "account_inv self lcl (init_coord self lcl)"
  by (simp add: account_inv_def init_coord_def pending_keys_def outcome_keys_def)

lemma mset_map_remove1:
  "r \<in> set xs \<Longrightarrow> add_mset (f r) (mset (map f (remove1 r xs))) = mset (map f xs)"
  by (induction xs) auto

lemma account_inv_pending:
  assumes "account_inv self lcl c"
    and "mset (pending_keys c') = mset (pending_keys c)"
    and "sink c' = sink c" and "producer c' = producer c"
  shows "account_inv self lcl c'"
proof -
  have "mset (map (str_key_of self lcl) (pending_keys c'))
      = mset (map (str_key_of self lcl) (pending_keys c))"
    using assms(2) by (metis mset_map)
  with assms(1,3,4) show ?thesis by (simp add: account_inv_def)
qed

lemma account_inv_acquire:
  assumes "account_inv self lcl c"
  shows "account_inv self lcl (acquire key c)"
proof (cases "find (\<lambda>r. fst r = key) (waiting c)")
  case None
  with assms show ?thesis by (simp add: acquire_def)
next
  case (Some r)
  then have rin: "r \<in> set (waiting c)"
    by (auto simp: find_Some_iff)
  show ?thesis
  proof (cases "semaphore c = 0")
    case True
    with Some assms show ?thesis by (simp add: acquire_def)
  next
    case False
    have "mset (pending_keys (acquire key c)) = mset (pending_keys c)"
      using Some False mset_map_remove1 [OF rin, of fst]
      by (simp add: acquire_def pending_keys_def)
    moreover have "sink (acquire key c) = sink c" "producer (acquire key c) = producer c"
      using Some False by (simp_all add: acquire_def)
    ultimately show ?thesis using assms by (rule account_inv_pending [rotated])
  qed
qed

lemma account_inv_complete:
  assumes "account_inv self lcl c" "control_inv c"
  shows "account_inv self lcl (complete self env key c)"
proof (cases "find (\<lambda>r. fst r = key) (inflight c)")
  case None
  with assms show ?thesis by (simp add: complete_def)
next
  case (Some r)
  then have rin: "r \<in> set (inflight c)"
    by (auto simp: find_Some_iff)
  then have nj: "producer c \<noteq> Joining" "producer c \<noteq> JoinReturned"
    using assms(2) by (auto simp: control_inv_def)
  show ?thesis
  proof (cases "download_image_with_retry r (net env key) (data_q c) (self_retries self)
                      (self_user_agent_token self) (self_disallowed_header_directives self)")
    case (Inl e)
    with Some nj show ?thesis
      by (cases "producer c") (simp_all add: complete_def account_inv_def Let_def)
  next
    case (Inr res)
    obtain calls q' where res: "res = (calls, q')" by (cases res)
    from Inr res download_image_with_retry_put obtain out where
      out: "q' = queue_put (Outcome out) (data_q c)" "fst out = fst r"
      by blast
    have "mset (pending_keys (complete self env key c)) = mset (pending_keys c)"
      using Some Inr res out mset_map_remove1 [OF rin, of fst]
      by (simp add: complete_def Let_def pending_keys_def queue_put_def outcome_keys_append
          outcome_keys_def)
    moreover have "sink (complete self env key c) = sink c"
      "producer (complete self env key c) = producer c"
      using Some Inr res by (simp_all add: complete_def Let_def)
    ultimately show ?thesis using assms(1) by (rule account_inv_pending [rotated])
  qed
qed

lemma account_inv_gathered: "account_inv self lcl c \<Longrightarrow> account_inv self lcl (gathered c)"
  by (auto simp: account_inv_def gathered_def pending_keys_def queue_put_def
      outcome_keys_append outcome_keys_def)

lemma account_inv_join_returns:
  "account_inv self lcl c \<Longrightarrow> account_inv self lcl (join_returns c)"
  by (auto simp: account_inv_def join_returns_def pending_keys_def)

lemma account_inv_consume:
  assumes "account_inv self lcl c"
  shows "account_inv self lcl (consume self env lcl c)"
proof (cases "items (data_q c)")
  case Nil
  with assms show ?thesis by (simp add: consume_def)
next
  case (Cons it rest)
  show ?thesis
  proof (cases it)
    case Finish
    with Cons assms show ?thesis
      by (auto simp: account_inv_def consume_def pending_keys_def outcome_keys_def)
  next
    case (Outcome outc)
    let ?k = "handle_item self env lcl outc (sink c)"
    have snk: "sink (consume self env lcl c) = ?k"
      and prod: "producer (consume self env lcl c) = producer c"
      and w: "waiting (consume self env lcl c) = waiting c"
      and f: "inflight (consume self env lcl c) = inflight c"
      and i: "items (data_q (consume self env lcl c)) = rest"
      using Cons Outcome
      by (simp_all add: consume_def Let_def task_done_def split: sum.splits)
    show ?thesis
      unfolding account_inv_def
    proof (intro impI, elim conjE)
      assume clean: "stdout (sink (consume self env lcl c)) = []"
        and np: "\<forall>e. producer (consume self env lcl c) \<noteq> ProducerFailed e"
      from clean snk handle_item_clean [of self env lcl outc "sink c"] obtain wc where
        s0: "stdout (sink c) = []" and wr: "writes ?k = writes (sink c) @ [wc]"
        and wk: "w_key wc = str_key_of self lcl (fst outc)"
        by auto
      from assms s0 np prod have
        "mset (map (str_key_of self lcl) (pending_keys c)) + mset (map w_key (writes (sink c)))
          = mset (map (str_key_of self lcl) (map fst (key_url_list lcl)))"
        by (simp add: account_inv_def)
      then show "mset (map (str_key_of self lcl) (pending_keys (consume self env lcl c)))
          + mset (map w_key (writes (sink (consume self env lcl c))))
          = mset (map (str_key_of self lcl) (map fst (key_url_list lcl)))"
        using Cons Outcome w f i snk wr wk
        by (simp add: pending_keys_def outcome_keys_def)
    qed
  qed
qed

lemma account_inv_exec:
  "account_inv self lcl c \<Longrightarrow> control_inv c \<Longrightarrow> account_inv self lcl (exec_event self env lcl ev c)"
  by (cases ev)
     (simp_all add: exec_event_def account_inv_acquire account_inv_complete
        account_inv_gathered account_inv_join_returns account_inv_consume)

lemma account_inv_run:
  "account_inv self lcl c \<Longrightarrow> control_inv c \<Longrightarrow> account_inv self lcl (run_events self env lcl evs c)"
  by (induction evs arbitrary: c) (simp_all add: account_inv_exec control_inv_exec)


lemma str_key_of_inj: "str_key_of self lcl a = str_key_of self lcl b \<Longrightarrow> a = b"
  by (auto simp: str_key_of_def compute_key_def dest: format_0d_inj)

lemma map_fst_enumerate_rows: "map fst (enumerate_rows xs) = map int [0 ..< length xs]"
  by (simp add: enumerate_rows_def)

lemma length_enumerate_rows: "length (enumerate_rows xs) = length xs"
  by (simp add: enumerate_rows_def)

lemma load_shard_keys:
  assumes "load_shard self env row = Inr lcl"
  shows "map fst (key_url_list lcl) = map int [0 ..< length (shard_to_dl lcl)]
     \<and> map fst (shard_to_dl lcl) = map int [0 ..< length (shard_to_dl lcl)]
     \<and> l_shard_id lcl = fst row"
  using assms
  by (auto simp: load_shard_def Let_def map_fst_enumerate_rows length_enumerate_rows comp_def
      split: prod.splits sum.splits)

lemma distinct_work_keys:
  assumes "load_shard self env row = Inr lcl"
  shows "distinct (map (str_key_of self lcl') (map fst (key_url_list lcl)))"
proof -
  have "distinct (map int [0 ..< length (shard_to_dl lcl)])"
    by (simp add: distinct_map inj_on_def)
  then have "distinct (map fst (key_url_list lcl))"
    using load_shard_keys [OF assms] by simp
  moreover have "inj_on (str_key_of self lcl') (set (map fst (key_url_list lcl)))"
    by (rule inj_onI) (rule str_key_of_inj)
  ultimately show ?thesis by (simp only: distinct_map)
qed

lemma run_coord_finish_shard: "run_coord (finish_shard env lcl f c fx) = Some c"
  by (simp add: finish_shard_def split: option.splits)

lemma run_coord_after_loop: "run_coord (after_loop env lcl f c) = Some c"
  by (simp add: after_loop_def run_coord_finish_shard split: consumer_pc.splits)

lemma run_result_finish_shard: "run_result (finish_shard env lcl f c fx) \<noteq> Hang"
  by (simp add: finish_shard_def split: option.splits)

lemma after_loop_Hang: "run_result (after_loop env lcl f c) = Hang \<longleftrightarrow> consumer c = Running"
  by (simp add: after_loop_def run_result_finish_shard split: consumer_pc.splits)

lemma after_loop_effects_Running:
  "consumer c = Running \<Longrightarrow>
     run_effects (after_loop env lcl f c) = WriterCreated # map Written (writes (sink c))"
  by (simp add: after_loop_def)

lemma prepare_Inr:
  assumes "prepare self env row = Inr lcl"
  shows "\<exists>lcl0. load_shard self env row = Inr lcl0
     \<and> lcl = lcl0\<lparr>l_oom_sample_per_shard := math_ceil_log10 env (self_number_sample_per_shard self)\<rparr>
     \<and> writer_init env = None
     \<and> 0 < self_number_sample_per_shard self \<and> 0 \<le> self_thread_count self"
proof (cases "load_shard self env row")
  case (Inl e)
  with assms show ?thesis by (simp add: prepare_def)
next
  case (Inr lcl0)
  show ?thesis
  proof (cases "writer_init env")
    case None
    have "\<not> self_number_sample_per_shard self \<le> 0"
      using assms Inr None by (auto simp add: prepare_def)
    moreover have "\<not> self_thread_count self < 0"
      using assms Inr None by (auto simp add: prepare_def split: if_splits)
    moreover have "lcl = lcl0\<lparr>l_oom_sample_per_shard := math_ceil_log10 env (self_number_sample_per_shard self)\<rparr>"
      using assms Inr None calculation by (simp add: prepare_def)
    ultimately show ?thesis using Inr None by simp
  next
    case (Some e)
    with assms Inr show ?thesis by (simp add: prepare_def)
  qed
qed

text \<open>What \<open>download_shard\<close> hands to the event loop, when it gets that far.\<close>

lemma download_shard_coord:
  assumes "run_coord (download_shard self env schedule row) = Some c"
  shows "\<exists>lcl. prepare self env row = Inr lcl
     \<and> c = run_events self env lcl schedule (init_coord self lcl)
     \<and> download_shard self env schedule row = after_loop env lcl (snd row) c"
  using assms
  by (auto simp: download_shard_def run_coord_after_loop split: sum.splits prod.splits)

lemma download_shard_control:
  assumes "run_coord (download_shard self env schedule row) = Some c"
  shows "control_inv c"
proof -
  from download_shard_coord [OF assms] obtain lcl where
    "c = run_events self env lcl schedule (init_coord self lcl)"
    by blast
  then show ?thesis by (simp add: control_inv_run control_inv_init)
qed

text \<open>
  Claim C1. Take a shard run that reached the event loop and in which \<open>save_task\<close> left
  its loop at the sentinel, and in which the handler of the per-item \<open>try\<close> block
  printed nothing (no per-item exception occurred). Then the local keys of the work
  list are \<open>0, \<dots>, n - 1\<close>, and the Sample Keys passed to \<open>sample_writer.write\<close> are, up
  to order, exactly the Sample Keys of these local keys, which are pairwise different:
  one call for each local key, none twice, none missing, whatever the outcome of the
  row was and whatever the schedule.
\<close>

theorem writes_once_per_row:
  assumes "load_shard self env row = Inr lcl"
    and "run_coord (download_shard self env schedule row) = Some c"
    and "consumer c = Done"
    and "stdout (sink c) = []"
  shows "map fst (key_url_list lcl) = map int [0 ..< length (shard_to_dl lcl)]
     \<and> mset (map w_key (writes (sink c)))
         = mset (map (\<lambda>k. compute_key k (fst row)
                      (math_ceil_log10 env (self_number_sample_per_shard self))
                      (self_oom_shard_count self))
                  (map fst (key_url_list lcl)))
     \<and> distinct (map w_key (writes (sink c)))
     \<and> length (writes (sink c)) = length (key_url_list lcl)"
proof -
  let ?lcl = "lcl\<lparr>l_oom_sample_per_shard := math_ceil_log10 env (self_number_sample_per_shard self)\<rparr>"
  from download_shard_coord [OF assms(2)] obtain lcl' where
    p: "prepare self env row = Inr lcl'"
    and c': "c = run_events self env lcl' schedule (init_coord self lcl')"
    by blast
  from prepare_Inr [OF p] assms(1) have eq: "lcl' = ?lcl" by auto
  have c: "c = run_events self env ?lcl schedule (init_coord self ?lcl)"
    using c' unfolding eq .
  have ctl: "control_inv c"
    using assms(2) by (rule download_shard_control)
  have acc: "account_inv self ?lcl c"
    unfolding c by (rule account_inv_run) (rule account_inv_init, rule control_inv_init)
  from ctl assms(3) have j: "producer c = Joining" "waiting c = []" "inflight c = []"
    "items (data_q c) = []"
    by (auto simp: control_inv_def split: producer_pc.splits)
  have keys: "map fst (key_url_list lcl) = map int [0 ..< length (shard_to_dl lcl)]"
    and sid: "l_shard_id lcl = fst row"
    using load_shard_keys [OF assms(1)] by simp_all
  have sk: "str_key_of self ?lcl = (\<lambda>k. compute_key k (fst row)
                      (math_ceil_log10 env (self_number_sample_per_shard self))
                      (self_oom_shard_count self))"
    using sid by (simp add: str_key_of_def fun_eq_iff)
  from acc assms(4) j have m: "mset (map w_key (writes (sink c)))
      = mset (map (str_key_of self ?lcl) (map fst (key_url_list lcl)))"
    by (simp add: account_inv_def pending_keys_def outcome_keys_def)
  have d: "distinct (map (str_key_of self ?lcl) (map fst (key_url_list lcl)))"
    using assms(1) by (rule distinct_work_keys)
  from m d have d': "distinct (map w_key (writes (sink c)))"
    by (metis mset_eq_imp_distinct_iff)
  from m have "size (mset (map w_key (writes (sink c))))
      = size (mset (map (str_key_of self ?lcl) (map fst (key_url_list lcl))))"
    by simp
  then have l: "length (writes (sink c)) = length (key_url_list lcl)"
    by simp
  from keys m d' l show ?thesis
    unfolding sk by simp
qed

text \<open>
  Claim C2, as the code has it. In every state the tasks are left in, the counter of the
  queue is the number of items still queued, plus one once the consumer has taken the
  sentinel (every outcome taken has been acknowledged, the sentinel never is), and
  \<open>download_task\<close> has not returned from \<open>join\<close>. Whenever \<open>asyncio.run\<close> returns or
  raises, so that the shard run goes on to \<open>close\<close>, \<open>write_stats\<close> and \<open>fs.rm\<close>, the
  consumer has taken the sentinel, all fetch tasks are complete, the queue is empty and
  exactly one item, the sentinel, is unacknowledged. Any effect beyond constructing the
  writer and the writes happens only in such a run.
\<close>

theorem drained_before_completion:
  assumes "run_coord (download_shard self env schedule row) = Some c"
  shows "unfinished_tasks (data_q c)
           = length (items (data_q c)) + (if consumer c = Done then 1 else 0)
     \<and> producer c \<noteq> JoinReturned
     \<and> (run_result (download_shard self env schedule row) \<noteq> Hang \<longrightarrow>
          consumer c = Done \<and> waiting c = [] \<and> inflight c = [] \<and> items (data_q c) = []
          \<and> unfinished_tasks (data_q c) = 1 \<and> producer c = Joining)
     \<and> (run_effects (download_shard self env schedule row)
           \<noteq> WriterCreated # map Written (writes (sink c)) \<longrightarrow>
          run_result (download_shard self env schedule row) \<noteq> Hang)"
proof -
  have ctl: "control_inv c"
    using assms by (rule download_shard_control)
  then have nf: "\<And>e. consumer c \<noteq> Failed e"
    by (simp add: control_inv_def)
  have a: "unfinished_tasks (data_q c)
           = length (items (data_q c)) + (if consumer c = Done then 1 else 0)"
    using ctl by (auto simp: control_inv_def split: producer_pc.splits if_splits)
  have b: "producer c \<noteq> JoinReturned"
    using ctl by (auto simp: control_inv_def)
  have d: "consumer c = Done \<Longrightarrow> waiting c = [] \<and> inflight c = [] \<and> items (data_q c) = []
          \<and> unfinished_tasks (data_q c) = 1 \<and> producer c = Joining"
    using ctl by (auto simp: control_inv_def split: producer_pc.splits if_splits)
  from download_shard_coord [OF assms] obtain lcl where
    ds: "download_shard self env schedule row = after_loop env lcl (snd row) c"
    by blast
  have r: "run_result (download_shard self env schedule row) \<noteq> Hang \<Longrightarrow> consumer c = Done"
    unfolding ds using nf by (cases "consumer c") (auto simp: after_loop_Hang)
  have f: "run_effects (download_shard self env schedule row)
           \<noteq> WriterCreated # map Written (writes (sink c)) \<Longrightarrow>
          run_result (download_shard self env schedule row) \<noteq> Hang"
    unfolding ds using after_loop_effects_Running [of c env lcl "snd row"]
    by (auto simp: after_loop_Hang)
  from a b d r f show ?thesis by blast
qed

section \<open>Properties of the Shard Runner\<close>

lemma finish_shard_Removed:
  assumes "Removed p \<in> set (run_effects (finish_shard env lcl f c fx))"
    and "Removed p \<notin> set fx"
  shows "p = f \<and> run_result (finish_shard env lcl f c fx) = Return ()
     \<and> writer_close env = None \<and> write_stats env (shard_stats lcl (sink c)) = None
     \<and> fs_rm env f = None
     \<and> run_effects (finish_shard env lcl f c fx)
         = fx @ [Closed, StatsEmitted (shard_stats lcl (sink c)), Removed f]"
  using assms by (auto simp: finish_shard_def split: option.splits)

lemma after_loop_Removed:
  assumes "Removed p \<in> set (run_effects (after_loop env lcl f c))"
  shows "p = f \<and> consumer c = Done \<and> run_result (after_loop env lcl f c) = Return ()
     \<and> writer_close env = None \<and> write_stats env (shard_stats lcl (sink c)) = None
     \<and> fs_rm env f = None
     \<and> run_effects (after_loop env lcl f c)
         = WriterCreated # map Written (writes (sink c))
             @ [Closed, StatsEmitted (shard_stats lcl (sink c)), Removed f]"
proof (cases "consumer c")
  case Running
  with assms show ?thesis by (auto simp: after_loop_def)
next
  case (Failed e)
  with assms show ?thesis by (auto simp: after_loop_def)
next
  case Done
  have n: "Removed p \<notin> set (WriterCreated # map Written (writes (sink c)))"
    by auto
  from assms Done
  have "Removed p \<in> set (run_effects (finish_shard env lcl f c
          (WriterCreated # map Written (writes (sink c)))))"
    by (simp add: after_loop_def)
  from finish_shard_Removed [OF this n] Done show ?thesis
    by (simp add: after_loop_def)
qed

lemma prepare_Inl_effects: "prepare self env row = Inl (e, fx) \<Longrightarrow> Removed p \<notin> set fx"
  by (auto simp: prepare_def split: sum.splits option.splits if_splits)

text \<open>
  Claim C9. If the shard source is removed in a shard run, then it is the path of this
  shard's row, \<open>download_shard\<close> returns, \<open>save_task\<close> has left its loop at the sentinel,
  \<open>close()\<close> and \<open>write_stats\<close> did not raise, and the effects of the run are: the writer
  constructed, the writes, \<open>close\<close>, the statistics, and last the removal. In
  particular a run that raises or does not return removes nothing.
\<close>

theorem source_removed_last:
  assumes "Removed p \<in> set (run_effects (download_shard self env schedule row))"
  shows "p = snd row
     \<and> run_result (download_shard self env schedule row) = Return ()
     \<and> writer_close env = None
     \<and> (\<exists>lcl c. prepare self env row = Inr lcl
           \<and> run_coord (download_shard self env schedule row) = Some c
           \<and> consumer c = Done
           \<and> write_stats env (shard_stats lcl (sink c)) = None
           \<and> run_effects (download_shard self env schedule row)
               = WriterCreated # map Written (writes (sink c))
                   @ [Closed, StatsEmitted (shard_stats lcl (sink c)), Removed (snd row)])"
proof (cases "prepare self env row")
  case (Inl a)
  obtain e fx where a: "a = (e, fx)" by (cases a)
  with Inl assms prepare_Inl_effects [of self env row e fx p] show ?thesis
    by (simp add: download_shard_def)
next
  case (Inr lcl)
  let ?c = "run_events self env lcl schedule (init_coord self lcl)"
  have ds: "download_shard self env schedule row = after_loop env lcl (snd row) ?c"
    using Inr by (simp add: download_shard_def)
  from assms have "Removed p \<in> set (run_effects (after_loop env lcl (snd row) ?c))"
    by (simp add: ds)
  from after_loop_Removed [OF this] Inr show ?thesis
    by (simp add: ds run_coord_after_loop)
qed

text \<open>
  Claim C8. \<open>__call__\<close> does not raise: when \<open>download_shard\<close> raises it returns
  \<open>(False, row)\<close> and prints the shard id with the error, when \<open>download_shard\<close>
  returns it returns \<open>(True, row)\<close>; it fails to return only when \<open>download_shard\<close>
  does.
\<close>

theorem call_isolates_failure:
  "(\<forall>e. fst (call self env schedule row) \<noteq> Raise e)
   \<and> (\<forall>msg. run_result (download_shard self env schedule row) = Raise (Exn msg)
        \<longrightarrow> call self env schedule row = (Return (False, row), [(fst row, msg)]))
   \<and> (run_result (download_shard self env schedule row) = Return ()
        \<longrightarrow> call self env schedule row = (Return (True, row), []))
   \<and> (fst (call self env schedule row) = Hang
        \<longleftrightarrow> run_result (download_shard self env schedule row) = Hang)"
  by (auto simp: call_def split: result.splits exn.splits)

lemma consume_outcome:
  assumes "items (data_q c) = Outcome outc # rest" and "0 < unfinished_tasks (data_q c)"
  shows "consumer (consume self env lcl c) = consumer c
     \<and> items (data_q (consume self env lcl c)) = rest
     \<and> unfinished_tasks (data_q (consume self env lcl c)) = unfinished_tasks (data_q c) - 1
     \<and> sink (consume self env lcl c) = handle_item self env lcl outc (sink c)
     \<and> waiting (consume self env lcl c) = waiting c
     \<and> inflight (consume self env lcl c) = inflight c
     \<and> producer (consume self env lcl c) = producer c"
  using assms by (simp add: consume_def task_done_def Let_def)





section \<open>Runs that complete\<close>

lemma run_events_append:
  "run_events self env lcl (xs @ ys) c = run_events self env lcl ys (run_events self env lcl xs c)"
  by (induction xs arbitrary: c) simp_all

lemma download_image_with_retry_Inr:
  assumes "0 \<le> r"
  shows "\<exists>calls q'. download_image_with_retry row session q r tok D = Inr (calls, q')"
proof -
  from assms obtain n where n: "nat (r + 1) = Suc n"
    by (cases "nat (r + 1)") auto
  from retry_loop_Suc [of n 0 row session tok D None] obtain calls out where
    "retry_loop (Suc n) 0 row session tok D None = Inr (calls, Some out)"
    by (elim exE conjE) (rule that)
  with n show ?thesis by (simp add: download_image_with_retry_def)
qed

lemma fetch_one:
  assumes "consumer c = Running" "producer c = Gathering" "inflight c = []"
    "0 < semaphore c" "waiting c = r # ws" "0 \<le> self_retries self"
  shows "consumer (complete self env (fst r) (acquire (fst r) c)) = Running
     \<and> producer (complete self env (fst r) (acquire (fst r) c)) = Gathering
     \<and> inflight (complete self env (fst r) (acquire (fst r) c)) = []
     \<and> semaphore (complete self env (fst r) (acquire (fst r) c)) = semaphore c
     \<and> waiting (complete self env (fst r) (acquire (fst r) c)) = ws"
proof -
  let ?a = "acquire (fst r) c"
  have a: "?a = c\<lparr>waiting := ws, inflight := [r], semaphore := semaphore c - 1\<rparr>"
    using assms by (simp add: acquire_def)
  from download_image_with_retry_Inr [OF assms(6)] obtain calls q' where
    d: "download_image_with_retry r (net env (fst r)) (data_q c) (self_retries self)
          (self_user_agent_token self) (self_disallowed_header_directives self) = Inr (calls, q')"
    by blast
  show ?thesis
    using assms d by (simp add: a complete_def Let_def)
qed

lemma fetch_all_completes:
  assumes "consumer c = Running" "producer c = Gathering" "inflight c = []"
    "0 < semaphore c" "0 \<le> self_retries self"
  shows "consumer (run_events self env lcl (fetch_all (map fst (waiting c))) c) = Running
     \<and> producer (run_events self env lcl (fetch_all (map fst (waiting c))) c) = Gathering
     \<and> inflight (run_events self env lcl (fetch_all (map fst (waiting c))) c) = []
     \<and> waiting (run_events self env lcl (fetch_all (map fst (waiting c))) c) = []"
  using assms
proof (induction "waiting c" arbitrary: c)
  case Nil
  then show ?case by (simp add: fetch_all_def)
next
  case (Cons r ws)
  let ?c = "complete self env (fst r) (acquire (fst r) c)"
  have w: "waiting c = r # ws" using Cons.hyps(2) by simp
  from fetch_one [OF Cons.prems(1-4) w Cons.prems(5), of env]
  have f: "consumer ?c = Running" "producer ?c = Gathering" "inflight ?c = []"
    "semaphore ?c = semaphore c" "waiting ?c = ws"
    by simp_all
  have ra: "consumer (acquire (fst r) c) = Running"
    using Cons.prems(1) by (simp add: acquire_def split: option.splits)
  have step: "run_events self env lcl (fetch_all (map fst (waiting c))) c
      = run_events self env lcl (fetch_all (map fst (waiting ?c))) ?c"
    using Cons.prems(1) ra f(5) by (simp add: w fetch_all_def exec_event_def)
  have "ws = waiting ?c" using f(5) by simp
  from Cons.hyps(1) [OF this f(1) f(2) f(3) _ Cons.prems(5)] f(4) Cons.prems(4)
  show ?case unfolding step by simp
qed

lemma consume_all:
  assumes "control_inv c" "producer c = Joining" "consumer c = Running"
    "length (items (data_q c)) = n"
  shows "consumer (run_events self env lcl (replicate n Consume) c) = Done"
  using assms
proof (induction n arbitrary: c)
  case 0
  then show ?case by (auto simp: control_inv_def)
next
  case (Suc n)
  from Suc.prems(1-3) obtain outs where
    outs: "items (data_q c) = outs @ [Finish]" "Finish \<notin> set outs"
    and u: "unfinished_tasks (data_q c) = length (items (data_q c))"
    by (auto simp: control_inv_def)
  show ?case
  proof (cases outs)
    case Nil
    with outs Suc.prems(3) have "consumer (consume self env lcl c) = Done"
      by (simp add: consume_def)
    moreover have "\<And>m c'. consumer c' = Done \<Longrightarrow>
        run_events self env lcl (replicate m Consume) c' = c'"
    proof -
      fix m c' show "consumer c' = Done \<Longrightarrow>
        run_events self env lcl (replicate m Consume) c' = c'"
        by (induction m) (simp_all add: exec_event_def)
    qed
    ultimately show ?thesis
      using Suc.prems(3) by (simp add: exec_event_def)
  next
    case (Cons it rest)
    with outs obtain outc where it: "it = Outcome outc"
      by (cases it) auto
    have i: "items (data_q c) = Outcome outc # (rest @ [Finish])"
      using outs Cons it by simp
    have pos: "0 < unfinished_tasks (data_q c)"
      using u i by simp
    from consume_outcome [OF i pos, of self env lcl] Suc.prems
    have c': "consumer (consume self env lcl c) = Running"
      "producer (consume self env lcl c) = Joining"
      "length (items (data_q (consume self env lcl c))) = n"
      using i by simp_all
    have inv': "control_inv (consume self env lcl c)"
      using Suc.prems(1,3) by (rule control_inv_consume)
    from Suc.IH [OF inv' c'(2) c'(1) c'(3)] Suc.prems(3)
    show ?thesis by (simp add: exec_event_def)
  qed
qed

text \<open>
  The runs the theorems above speak about exist: with at least one semaphore slot and
  \<open>retries \<ge> 0\<close>, fetching the rows one after the other, then putting the sentinel,
  then consuming the whole queue ends \<open>save_task\<close> at the sentinel.
\<close>

lemma coordinator_can_finish:
  assumes "0 < self_thread_count self" "0 \<le> self_retries self"
  shows "\<exists>schedule. consumer (run_events self env lcl schedule (init_coord self lcl)) = Done"
proof -
  let ?c0 = "init_coord self lcl"
  let ?s1 = "fetch_all (map fst (waiting ?c0))"
  let ?c1 = "run_events self env lcl ?s1 ?c0"
  let ?c2 = "gathered ?c1"
  have "consumer ?c0 = Running" "producer ?c0 = Gathering" "inflight ?c0 = []"
    "0 < semaphore ?c0"
    using assms(1) by (simp_all add: init_coord_def)
  from fetch_all_completes [OF this assms(2), of env lcl]
  have c1: "consumer ?c1 = Running" "producer ?c1 = Gathering" "inflight ?c1 = []"
    "waiting ?c1 = []"
    by simp_all
  have inv1: "control_inv ?c1"
    by (simp add: control_inv_run control_inv_init)
  have inv2: "control_inv ?c2"
    using inv1 by (rule control_inv_gathered)
  have c2: "producer ?c2 = Joining" "consumer ?c2 = Running"
    using c1 by (simp_all add: gathered_def)
  let ?n = "length (items (data_q ?c2))"
  have "consumer (run_events self env lcl (replicate ?n Consume) ?c2) = Done"
    using inv2 c2 by (rule consume_all) simp
  moreover have "run_events self env lcl (?s1 @ Gathered # replicate ?n Consume) ?c0
      = run_events self env lcl (replicate ?n Consume) ?c2"
    using c1(1) by (simp add: run_events_append exec_event_def)
  ultimately show ?thesis by metis
qed

lemma download_shard_can_return:
  assumes "prepare self env row = Inr lcl" "0 < self_thread_count self" "0 \<le> self_retries self"
  shows "\<exists>schedule. run_result (download_shard self env schedule row) \<noteq> Hang"
proof -
  from coordinator_can_finish [OF assms(2,3), of env lcl] obtain schedule where
    "consumer (run_events self env lcl schedule (init_coord self lcl)) = Done"
    by blast
  then have "run_result (download_shard self env schedule row) \<noteq> Hang"
    using assms(1) by (simp add: download_shard_def after_loop_Hang)
  then show ?thesis by blast
qed

section \<open>Properties of the Outcome Processor\<close>




section \<open>The theorems on a concrete shard\<close>

theorem writes_once_per_row_witness:
  "load_shard demo_self demo_env (3, ''shard'') = Inr (demo_lcl\<lparr>l_oom_sample_per_shard := 0\<rparr>)
   \<and> run_coord (download_shard demo_self demo_env demo_schedule (3, ''shard'')) \<noteq> None
   \<and> consumer (the (run_coord (download_shard demo_self demo_env demo_schedule (3, ''shard'')))) = Done
   \<and> stdout (sink (the (run_coord (download_shard demo_self demo_env demo_schedule (3, ''shard''))))) = []
   \<and> map w_key (writes (sink (the (run_coord
        (download_shard demo_self demo_env demo_schedule (3, ''shard''))))))
      = [''31'', ''30'']
   \<and> map (\<lambda>k. compute_key k 3 1 1) [0, 1] = [''30'', ''31'']"
proof -
  let ?r = "download_shard demo_self demo_env demo_schedule (3, ''shard'')"
  have h1: "load_shard demo_self demo_env (3, ''shard'')
      = Inr (demo_lcl\<lparr>l_oom_sample_per_shard := 0\<rparr>)"
    by code_simp
  have ne: "run_coord ?r \<noteq> None"
    by code_simp
  then have h2: "run_coord ?r = Some (the (run_coord ?r))"
    by simp
  have h3: "consumer (the (run_coord ?r)) = Done"
    by code_simp
  have h4: "stdout (sink (the (run_coord ?r))) = []"
    by code_simp
  have e: "map w_key (writes (sink (the (run_coord ?r)))) = [''31'', ''30'']"
    by code_simp
  have k: "map (\<lambda>k. compute_key k 3 1 1) [0, 1] = [''30'', ''31'']"
    by code_simp
  from writes_once_per_row [OF h1 h2 h3 h4] h1 ne h3 h4 e k show ?thesis
    by simp
qed

theorem drained_before_completion_witness:
  "run_coord (download_shard demo_self demo_env demo_schedule (3, ''shard'')) \<noteq> None
   \<and> run_result (download_shard demo_self demo_env demo_schedule (3, ''shard'')) = Return ()
   \<and> consumer (the (run_coord (download_shard demo_self demo_env demo_schedule (3, ''shard'')))) = Done
   \<and> items (data_q (the (run_coord (download_shard demo_self demo_env demo_schedule (3, ''shard''))))) = []
   \<and> unfinished_tasks (data_q (the (run_coord
        (download_shard demo_self demo_env demo_schedule (3, ''shard''))))) = 1
   \<and> producer (the (run_coord (download_shard demo_self demo_env demo_schedule (3, ''shard''))))
      = Joining"
proof -
  let ?r = "download_shard demo_self demo_env demo_schedule (3, ''shard'')"
  have ne: "run_coord ?r \<noteq> None"
    by code_simp
  then have h: "run_coord ?r = Some (the (run_coord ?r))"
    by simp
  have rr: "run_result ?r = Return ()"
    by code_simp
  from drained_before_completion [OF h] ne rr show ?thesis
    by simp
qed

text \<open>
  Claim C2 as stated asks that completion is not reported and cleanup does not proceed
  before every item put, the sentinel included, is acknowledged, that is before the
  producer's \<open>join\<close> completes. In this run the shard run returns and the source is
  removed while the counter of the queue is still one and \<open>download_task\<close> still waits
  in \<open>join\<close>.
\<close>

theorem sentinel_unacknowledged_counterexample:
  "run_result (download_shard demo_self demo_env demo_schedule (3, ''shard'')) = Return ()
   \<and> Removed ''shard'' \<in> set (run_effects (download_shard demo_self demo_env demo_schedule (3, ''shard'')))
   \<and> map_option (unfinished_tasks \<circ> data_q)
        (run_coord (download_shard demo_self demo_env demo_schedule (3, ''shard''))) = Some 1
   \<and> map_option producer
        (run_coord (download_shard demo_self demo_env demo_schedule (3, ''shard''))) = Some Joining"
  by code_simp

theorem source_removed_last_witness:
  "Removed ''shard'' \<in> set (run_effects (download_shard demo_self demo_env demo_schedule (3, ''shard'')))
   \<and> run_result (download_shard demo_self demo_env demo_schedule (3, ''shard'')) = Return ()
   \<and> drop 3 (run_effects (download_shard demo_self demo_env demo_schedule (3, ''shard'')))
      = [Closed,
         StatsEmitted \<lparr>st_count = 2, st_successes = 1, st_failed_to_download = 1,
                       st_failed_to_resize = 0, st_status_dict = [''timeout'', ''success'']\<rparr>,
         Removed ''shard'']
   \<and> run_result (download_shard demo_self (demo_env\<lparr>writer_close := Some (Exn ''flush failed'')\<rparr>)
        demo_schedule (3, ''shard'')) = Raise (Exn ''flush failed'')
   \<and> Removed ''shard'' \<notin> set (run_effects (download_shard demo_self
        (demo_env\<lparr>writer_close := Some (Exn ''flush failed'')\<rparr>) demo_schedule (3, ''shard'')))"
proof -
  let ?r = "download_shard demo_self demo_env demo_schedule (3, ''shard'')"
  have h: "Removed ''shard'' \<in> set (run_effects ?r)"
    by code_simp
  have d: "drop 3 (run_effects ?r)
      = [Closed,
         StatsEmitted \<lparr>st_count = 2, st_successes = 1, st_failed_to_download = 1,
                       st_failed_to_resize = 0, st_status_dict = [''timeout'', ''success'']\<rparr>,
         Removed ''shard'']"
    by code_simp
  have f: "run_result (download_shard demo_self (demo_env\<lparr>writer_close := Some (Exn ''flush failed'')\<rparr>)
        demo_schedule (3, ''shard'')) = Raise (Exn ''flush failed'')"
    by code_simp
  have g: "Removed ''shard'' \<notin> set (run_effects (download_shard demo_self
        (demo_env\<lparr>writer_close := Some (Exn ''flush failed'')\<rparr>) demo_schedule (3, ''shard'')))"
    by code_simp
  from source_removed_last [OF h] h d f g show ?thesis
    by simp
qed

theorem call_isolates_failure_witness:
  "call demo_self (demo_env\<lparr>src_read := (\<lambda>p. Inl (Exn ''unreadable''))\<rparr>) demo_schedule (3, ''shard'')
     = (Return (False, 3, ''shard''), [(3, ''unreadable'')])
   \<and> call demo_self (demo_env\<lparr>src_read := (\<lambda>p. Inr [(''link'', [])])\<rparr>) demo_schedule (3, ''shard'')
     = (Return (False, 3, ''shard''), [(3, ''KeyError'')])
   \<and> call demo_self demo_env demo_schedule (3, ''shard'') = (Return (True, 3, ''shard''), [])"
proof -
  have a: "call demo_self (demo_env\<lparr>src_read := (\<lambda>p. Inl (Exn ''unreadable''))\<rparr>) demo_schedule
      (3, ''shard'') = (Return (False, 3, ''shard''), [(3, ''unreadable'')])"
    by code_simp
  have b: "call demo_self (demo_env\<lparr>src_read := (\<lambda>p. Inr [(''link'', [])])\<rparr>) demo_schedule
      (3, ''shard'') = (Return (False, 3, ''shard''), [(3, ''KeyError'')])"
    by code_simp
  have c: "call demo_self demo_env demo_schedule (3, ''shard'') = (Return (True, 3, ''shard''), [])"
    by code_simp
  from call_isolates_failure [of demo_self demo_env demo_schedule "(3, ''shard'')"] a b c
  show ?thesis by simp
qed

end
